theory Spec2Isabelle
  imports Complex_Main "HOL-Library.AList" "HOL-Library.Multiset"
begin

section \<open>Values shared by the converters\<close>

text \<open>
  A JavaScript number is modelled by the real number it denotes; the data model only admits
  finite components. Reading an array outside its bounds yields \<open>undefined\<close> in JavaScript,
  which is \<open>None\<close> here.
\<close>

definition nth_opt :: "'a list \<Rightarrow> nat \<Rightarrow> 'a option" where
  "nth_opt xs i = (if i < length xs then Some (xs ! i) else None)"

text \<open>
  The errors a caller can observe. \<open>TypeError\<close> is what the JavaScript runtime raises when a
  value that is not a function is called, when a property of \<open>undefined\<close> is read, or when
  the right-hand side of \<open>instanceof\<close> is not callable. \<open>ReferenceError\<close> is what it raises
  when an identifier that is bound nowhere is evaluated. The other two are the error kinds named
  by the specification.
\<close>

datatype js_error = TypeError | ReferenceError | ValidationError | UnsupportedOperationError

section \<open>Mesh ingestion: \<open>importThreeGeometry\<close>\<close>

text \<open>
  \<open>new Vertex(new Vector(a, b, c))\<close>: the three values handed to the constructors, each either a
  number or \<open>undefined\<close>.
\<close>

datatype csg_vertex = Vertex "real option" "real option" "real option"

text \<open>
  Modelled from the spec: the \<open>Polygon\<close> and \<open>CSG\<close> classes live in the math and core modules.
  A polygon is its ordered vertices and an optional shared colour; \<open>new Polygon(vs)\<close> carries
  no colour. A mesh is its ordered polygons and the two cache flags the converter resets.
\<close>

record csg_polygon =
  pvertices :: "csg_vertex list"
  pshared_color :: "real list option"

record csg =
  polygons :: "csg_polygon list"
  isCanonicalized :: bool
  isRetesselated :: bool

definition new_Polygon :: "csg_vertex list \<Rightarrow> csg_polygon" where
  "new_Polygon vs = \<lparr>pvertices = vs, pshared_color = None\<rparr>"

text \<open>
  A rendering-engine buffer geometry: \<open>geometry.index\<close> is absent or wraps an array of
  non-negative integers, \<open>geometry.attributes.position.array\<close> is a flat array of numbers.
\<close>

record geometry =
  index_array :: "nat list option"
  position_array :: "real list"

datatype mesh_like = Csg csg | Geometry geometry

definition getVector :: "nat list \<Rightarrow> real list \<Rightarrow> nat \<Rightarrow> nat \<Rightarrow> real option" where
  "getVector vertices vectors x y =
     (case nth_opt vertices x of
        None \<Rightarrow> None
      | Some v \<Rightarrow> nth_opt vectors (v * 3 + y))"

definition getVertex :: "nat list \<Rightarrow> real list \<Rightarrow> nat \<Rightarrow> csg_vertex" where
  "getVertex vertices vectors x =
     Vertex (getVector vertices vectors x 0) (getVector vertices vectors x 1)
            (getVector vertices vectors x 2)"

definition getVertex2 :: "real list \<Rightarrow> nat \<Rightarrow> csg_vertex" where
  "getVertex2 vectors x =
     Vertex (nth_opt vectors x) (nth_opt vectors (x + 1)) (nth_opt vectors (x + 2))"

definition getVertexes :: "nat list \<Rightarrow> real list \<Rightarrow> nat \<Rightarrow> csg_vertex list" where
  "getVertexes vertices vectors x =
     [getVertex vertices vectors x, getVertex vertices vectors (x + 1),
      getVertex vertices vectors (x + 2)]"

text \<open>The two \<open>for\<close> loops, stepping by 3 over the indices and by 9 over the floats.\<close>

function indexed_loop ::
  "nat list \<Rightarrow> real list \<Rightarrow> nat \<Rightarrow> csg_polygon list \<Rightarrow> csg_polygon list" where
  "indexed_loop vertices vectors x ps =
     (if x < length vertices
      then indexed_loop vertices vectors (x + 3)
             (ps @ [new_Polygon (getVertexes vertices vectors x)])
      else ps)"
  by pat_completeness auto
termination
  by (relation "measure (\<lambda>(vertices, vectors, x, ps). length vertices - x)") auto

declare indexed_loop.simps [simp del]

function soup_loop :: "real list \<Rightarrow> nat \<Rightarrow> csg_polygon list \<Rightarrow> csg_polygon list" where
  "soup_loop vectors x ps =
     (if x < length vectors
      then soup_loop vectors (x + 9)
             (ps @ [new_Polygon [getVertex2 vectors x, getVertex2 vectors (x + 3),
                                 getVertex2 vectors (x + 6)]])
      else ps)"
  by pat_completeness auto
termination
  by (relation "measure (\<lambda>(vectors, x, ps). length vectors - x)") auto

declare soup_loop.simps [simp del]

text \<open>\<open>const vertices = geometry.index ? geometry.index.array : []\<close>\<close>

definition index_entries :: "geometry \<Rightarrow> nat list" where
  "index_entries g = (case index_array g of Some a \<Rightarrow> a | None \<Rightarrow> [])"

definition importThreeGeometry :: "mesh_like \<Rightarrow> csg" where
  "importThreeGeometry object =
     (case object of
        Csg c \<Rightarrow> c
      | Geometry g \<Rightarrow>
          (let vertices = index_entries g;
               vectors = position_array g;
               ps = (if length vertices \<noteq> 0
                     then indexed_loop vertices vectors 0 []
                     else soup_loop vectors 0 [])
           in \<lparr>polygons = ps, isCanonicalized = False, isRetesselated = False\<rparr>))"

text \<open>
  The buffer shapes the specification calls malformed: an index count that is not a multiple
  of 3, an index outside the position array, or, without indices, a float count that is not a
  multiple of 9.
\<close>

definition malformed :: "geometry \<Rightarrow> bool" where
  "malformed g =
     (case index_array g of
        Some a \<Rightarrow> length a mod 3 \<noteq> 0 \<or> (\<exists>v \<in> set a. length (position_array g) < v * 3 + 3)
      | None \<Rightarrow> length (position_array g) mod 9 \<noteq> 0)"

text \<open>
  The shapes on which the two loops read inside the buffers only: on the indexed path (a
  non-empty index array) whole index triples, each index within the position array; on the
  other path whole groups of 9 floats.
\<close>

definition well_shaped :: "geometry \<Rightarrow> bool" where
  "well_shaped g =
     (if length (index_entries g) \<noteq> 0
      then length (index_entries g) mod 3 = 0 \<and>
           (\<forall>v \<in> set (index_entries g). v * 3 + 3 \<le> length (position_array g))
      else length (position_array g) mod 9 = 0)"

fun defined_vertex :: "csg_vertex \<Rightarrow> bool" where
  "defined_vertex (Vertex a b c) = (a \<noteq> None \<and> b \<noteq> None \<and> c \<noteq> None)"

definition defined_polygon :: "csg_polygon \<Rightarrow> bool" where
  "defined_polygon p = (length (pvertices p) = 3 \<and> list_all defined_vertex (pvertices p))"

section \<open>Operation dispatch: \<open>prepareObjects\<close> and \<open>runOperation\<close>\<close>

text \<open>A colour handed to dispatch: its \<open>r\<close>, \<open>g\<close>, \<open>b\<close> properties and whatever alpha it carries.\<close>

record dispatch_color =
  col_r :: real
  col_g :: real
  col_b :: real
  col_a :: "real option"

text \<open>
  \<open>convertedObject.setColor(...)\<close> calls a method of the mesh class, which is not part of the
  converter: it is a parameter, \<open>setColor mesh args\<close> being the mesh after the call.
\<close>

definition prepareObject ::
  "(csg \<Rightarrow> real list \<Rightarrow> csg) \<Rightarrow> dispatch_color option list \<Rightarrow> mesh_like \<times> nat \<Rightarrow> csg" where
  "prepareObject setColor colors oi =
     (case oi of (object, index) \<Rightarrow>
        (let convertedObject = importThreeGeometry object
         in case nth_opt colors index of
              Some (Some c) \<Rightarrow> setColor convertedObject [col_r c, col_g c, col_b c, 1]
            | _ \<Rightarrow> convertedObject))"

definition prepareObjects ::
  "(csg \<Rightarrow> real list \<Rightarrow> csg) \<Rightarrow> mesh_like list \<Rightarrow> dispatch_color option list \<Rightarrow> csg list" where
  "prepareObjects setColor objects colors =
     map (prepareObject setColor colors) (zip objects [0..<length objects])"

text \<open>
  \<open>firstObject[operation](objects)\<close>: the property named \<open>operation\<close> is looked up on the
  receiver and called. The receiver's class is not part of the converter, so the lookup is a
  parameter: \<open>methods receiver name\<close> is the function found under that name, or \<open>None\<close> when the
  property is missing or is not a function. Calling such a value, or reading a property of the
  \<open>undefined\<close> that \<open>shift\<close> returns on an empty list, raises a \<open>TypeError\<close>.
\<close>

definition runOperation ::
  "(csg \<Rightarrow> real list \<Rightarrow> csg) \<Rightarrow> (csg \<Rightarrow> string \<Rightarrow> (csg list \<Rightarrow> 'r) option) \<Rightarrow> string \<Rightarrow>
   mesh_like list \<Rightarrow> dispatch_color option list \<Rightarrow> js_error + 'r" where
  "runOperation setColor methods operation objects colors =
     (case prepareObjects setColor objects colors of
        [] \<Rightarrow> Inl TypeError
      | firstObject # rest \<Rightarrow>
          (case methods firstObject operation of
             None \<Rightarrow> Inl TypeError
           | Some m \<Rightarrow> Inr (m rest)))"

text \<open>
  Modelled from the spec: \<open>setColor\<close> of the mesh class in the core module applies the colour
  uniformly to the whole mesh, as if every polygon's shared colour were set.
\<close>

definition setColor_uniform :: "csg \<Rightarrow> real list \<Rightarrow> csg" where
  "setColor_uniform c args =
     c\<lparr>polygons := map (\<lambda>p. p\<lparr>pshared_color := Some args\<rparr>) (polygons c)\<rparr>"

section \<open>Export: \<open>exportThreeGeometry\<close>\<close>

subsection \<open>Values read and built by the export\<close>

text \<open>
  A vector with \<open>x\<close>, \<open>y\<close>, \<open>z\<close> properties (a vertex position, a plane normal, a
  \<open>THREE.Vector3\<close>) and a \<open>THREE.Color\<close> with its \<open>r\<close>, \<open>g\<close>, \<open>b\<close> properties.
\<close>

record vector3 =
  vx :: real
  vy :: real
  vz :: real

record rgb =
  cr :: real
  cg :: real
  cb :: real

text \<open>
  What the export reads of a polygon: \<open>polygon.vertices[i].pos\<close>, \<open>polygon.plane.normal\<close> and
  \<open>polygon.shared.color\<close>, the latter absent or an array of 3 or 4 components.
\<close>

datatype shared_color = RGB real real real | RGBA real real real real

fun color0 :: "shared_color \<Rightarrow> real" where
  "color0 (RGB r g b) = r"
| "color0 (RGBA r g b a) = r"

fun color1 :: "shared_color \<Rightarrow> real" where
  "color1 (RGB r g b) = g"
| "color1 (RGBA r g b a) = g"

fun color2 :: "shared_color \<Rightarrow> real" where
  "color2 (RGB r g b) = b"
| "color2 (RGBA r g b a) = b"

record polygon =
  poly_vertices :: "vector3 list"
  plane_normal :: vector3
  shared_color :: "shared_color option"

text \<open>
  The operations of the runtime and of the rendering library that the export calls and that
  round in floating point. They are parameters of the model, so that every result below holds
  for whatever these operations compute: \<open>Number::toString\<close> (reached by \<open>toFixed\<close> for
  magnitudes from \<open>10^21\<close> on), \<open>Vector3.add\<close>, \<open>Vector3.normalize\<close>, \<open>Vector3.angleTo\<close> and the
  conversion of a number to an element of a \<open>Float32Array\<close>.
\<close>

record runtime =
  numberToString :: "real \<Rightarrow> string"
  vector3_add :: "vector3 \<Rightarrow> vector3 \<Rightarrow> vector3"
  vector3_normalize :: "vector3 \<Rightarrow> vector3"
  vector3_angleTo :: "vector3 \<Rightarrow> vector3 \<Rightarrow> real"
  float32 :: "real \<Rightarrow> real"

subsection \<open>\<open>Number.prototype.toFixed\<close> and the weld key\<close>

definition digit :: "nat \<Rightarrow> char" where
  "digit d = ''0123456789'' ! d"

fun digits_of :: "nat \<Rightarrow> string" where
  "digits_of n = (if n < 10 then [digit n] else digits_of (n div 10) @ [digit (n mod 10)])"

declare digits_of.simps [simp del]

text \<open>
  \<open>x.toFixed(f)\<close> for a finite \<open>x\<close>, step by step as the language defines it: the sign, then
  for magnitudes below \<open>10^21\<close> the integer \<open>n\<close> for which \<open>n / 10^f - x\<close> is as close to zero
  as possible (the larger one of two), written in decimal and padded with zeros to at least
  \<open>f + 1\<close> digits, with a point before the last \<open>f\<close> digits.
\<close>

definition toFixed :: "runtime \<Rightarrow> real \<Rightarrow> nat \<Rightarrow> string" where
  "toFixed rt x f =
     (let s = (if x < 0 then ''-'' else []);
          x' = (if x < 0 then - x else x)
      in if 10 ^ 21 \<le> x' then s @ numberToString rt x'
         else
           (let n = nat \<lfloor>x' * 10 ^ f + 1 / 2\<rfloor>;
                m = digits_of n;
                m' = (if f \<noteq> 0
                      then (let m0 = (if length m \<le> f
                                      then replicate (f + 1 - length m) CHR ''0'' @ m
                                      else m);
                                k = length m0
                            in take (k - f) m0 @ ''.'' @ drop (k - f) m0)
                      else m)
            in s @ m'))"

definition VERTEX_PRECISION :: nat where
  "VERTEX_PRECISION = 4"

definition hash :: "runtime \<Rightarrow> vector3 \<Rightarrow> string" where
  "hash rt vertex =
     toFixed rt (vx vertex) VERTEX_PRECISION @ ''_'' @
     toFixed rt (vy vertex) VERTEX_PRECISION @ ''_'' @
     toFixed rt (vz vertex) VERTEX_PRECISION"

subsection \<open>Triangulation and bucketing\<close>

text \<open>
  An entry of \<open>vertexMap\<close>. Its \<open>faces\<close> list holds pairs \<open>[face, idx]\<close> of a face record and a
  corner number; a face record is identified by its position in the \<open>faces\<close> array of the
  export, where it is pushed when it is created.
\<close>

record bucket =
  b_vertex :: vector3
  b_colours :: "rgb list"
  b_normals :: "vector3 list"
  b_faces :: "(nat \<times> nat) list"

text \<open>
  The local variables of \<open>exportThreeGeometry\<close>. \<open>vertexMap\<close> is an object used as a
  dictionary; \<open>Object.values\<close> enumerates its string keys in the order of their first
  insertion, so it is an association list that is extended at its end.
\<close>

record export_state =
  vertices :: "real list"
  normalVecs :: "real list"
  colors :: "real list"
  colorsUsed :: bool
  vertexMap :: "(string \<times> bucket) list"
  faces :: "nat list list"

definition initial_state :: export_state where
  "initial_state =
     \<lparr>vertices = [], normalVecs = [], colors = [], colorsUsed = False, vertexMap = [],
      faces = []\<rparr>"

text \<open>The body of \<open>[0, x + 1, x + 2].forEach((vertIdx, idx) => ...)\<close>.\<close>

definition add_corner ::
  "runtime \<Rightarrow> polygon \<Rightarrow> vector3 \<Rightarrow> rgb \<Rightarrow> nat \<Rightarrow> (string \<times> bucket) list \<Rightarrow> nat \<times> nat \<Rightarrow>
   (string \<times> bucket) list" where
  "add_corner rt polygon normalVec threeColor face vmap vi =
     (case vi of (vertIdx, idx) \<Rightarrow>
        (let vertex = poly_vertices polygon ! vertIdx;
             h = hash rt vertex
         in case map_of vmap h of
              Some vertexLookup \<Rightarrow>
                AList.update h
                  (vertexLookup
                     \<lparr>b_colours := b_colours vertexLookup @ [threeColor],
                      b_normals := b_normals vertexLookup @ [normalVec],
                      b_faces := b_faces vertexLookup @ [(face, idx)]\<rparr>)
                  vmap
            | None \<Rightarrow>
                vmap @ [(h, \<lparr>b_vertex = vertex, b_colours = [threeColor],
                             b_normals = [normalVec], b_faces = [(face, idx)]\<rparr>)]))"

text \<open>The body of \<open>for (let x = 0; x < polygon.vertices.length - 2; x++)\<close>.\<close>

definition add_triangle ::
  "runtime \<Rightarrow> polygon \<Rightarrow> vector3 \<Rightarrow> rgb \<Rightarrow> export_state \<Rightarrow> nat \<Rightarrow> export_state" where
  "add_triangle rt polygon normalVec threeColor st x =
     (let face = length (faces st)
      in st\<lparr>faces := faces st @ [[0, 0, 0]],
            vertexMap := foldl (add_corner rt polygon normalVec threeColor face) (vertexMap st)
                           [(0, 0), (x + 1, 1), (x + 2, 2)]\<rparr>)"

text \<open>The body of \<open>geometry.polygons.forEach((polygon) => ...)\<close>.\<close>

definition add_polygon :: "runtime \<Rightarrow> export_state \<Rightarrow> polygon \<Rightarrow> export_state" where
  "add_polygon rt st polygon =
     (let normalVec = plane_normal polygon;
          vertexColor = (case shared_color polygon of
                           Some c \<Rightarrow> (color0 c, color1 c, color2 c)
                         | None \<Rightarrow> (1, 1, 1));
          st' = (case shared_color polygon of
                   Some c \<Rightarrow> st\<lparr>colorsUsed := True\<rparr>
                 | None \<Rightarrow> st);
          threeColor = (case vertexColor of (r, g, b) \<Rightarrow> \<lparr>cr = r, cg = g, cb = b\<rparr>)
      in foldl (add_triangle rt polygon normalVec threeColor) st'
           [0..<length (poly_vertices polygon) - 2])"

subsection \<open>Smoothing groups\<close>

text \<open>The body of the inner loop \<open>for (let j = i; j < normals.length; j++)\<close>.\<close>

definition scan_normal ::
  "runtime \<Rightarrow> real \<Rightarrow> vector3 list \<Rightarrow> nat \<Rightarrow> nat list \<times> bool list \<Rightarrow> nat \<Rightarrow>
   nat list \<times> bool list" where
  "scan_normal rt smoothingAngle normals i cu j =
     (case cu of (currGroup, ungroupedNormals) \<Rightarrow>
        (if ungroupedNormals ! j
         then (let iNorm = normals ! i; jNorm = normals ! j
               in if vector3_angleTo rt iNorm jNorm \<le> smoothingAngle
                  then (currGroup @ [j], ungroupedNormals[j := False])
                  else (currGroup, ungroupedNormals))
         else (currGroup, ungroupedNormals)))"

text \<open>The body of the outer loop \<open>for (let i = 0; i < normals.length; i++)\<close>.\<close>

definition seed_group ::
  "runtime \<Rightarrow> real \<Rightarrow> vector3 list \<Rightarrow> bool list \<times> nat list list \<Rightarrow> nat \<Rightarrow>
   bool list \<times> nat list list" where
  "seed_group rt smoothingAngle normals ug i =
     (case ug of (ungroupedNormals, groupedNormals) \<Rightarrow>
        (if ungroupedNormals ! i
         then (case foldl (scan_normal rt smoothingAngle normals i)
                      ([i], ungroupedNormals[i := False]) [i..<length normals] of
                 (currGroup, ungroupedNormals') \<Rightarrow>
                   (ungroupedNormals', groupedNormals @ [currGroup]))
         else (ungroupedNormals, groupedNormals)))"

definition group_normals :: "runtime \<Rightarrow> real \<Rightarrow> vector3 list \<Rightarrow> nat list list" where
  "group_normals rt smoothingAngle normals =
     snd (foldl (seed_group rt smoothingAngle normals) (map (\<lambda>n. True) normals, [])
            [0..<length normals])"

subsection \<open>Resolution of a bucket\<close>

definition zero_vector :: vector3 where
  "zero_vector = \<lparr>vx = 0, vy = 0, vz = 0\<rparr>"

text \<open>\<open>avgNormal\<close>: the members' normals added up from the zero vector, then normalised.\<close>

definition average_normal :: "runtime \<Rightarrow> vector3 list \<Rightarrow> nat list \<Rightarrow> vector3" where
  "average_normal rt normals currNormalIndices =
     vector3_normalize rt
       (foldl (\<lambda>avgNormal j. vector3_add rt avgNormal (normals ! j)) zero_vector
          currNormalIndices)"

text \<open>
  The body of the second loop over a group: the corner's slot of its face record is set to
  the number of vertices pushed so far, then one vertex, one normal and one colour are pushed.
\<close>

definition emit_corner ::
  "vector3 \<Rightarrow> vector3 \<Rightarrow> rgb list \<Rightarrow> (nat \<times> nat) list \<Rightarrow> export_state \<Rightarrow> nat \<Rightarrow> export_state" where
  "emit_corner vertex avgNormal colours bfaces st currIndex =
     (let currColour = colours ! currIndex
      in case bfaces ! currIndex of (face, idx) \<Rightarrow>
           st\<lparr>faces := (faces st)[face := (faces st ! face)[idx := length (vertices st) div 3]],
              vertices := vertices st @ [vx vertex, vy vertex, vz vertex],
              normalVecs := normalVecs st @ [vx avgNormal, vy avgNormal, vz avgNormal],
              colors := colors st @ [cr currColour, cg currColour, cb currColour]\<rparr>)"

definition resolve_group :: "runtime \<Rightarrow> bucket \<Rightarrow> export_state \<Rightarrow> nat list \<Rightarrow> export_state" where
  "resolve_group rt vertexObj st currNormalIndices =
     (let avgNormal = average_normal rt (b_normals vertexObj) currNormalIndices
      in foldl (emit_corner (b_vertex vertexObj) avgNormal (b_colours vertexObj)
                  (b_faces vertexObj)) st currNormalIndices)"

text \<open>The body of \<open>Object.values(vertexMap).forEach(vertexObj => ...)\<close>.\<close>

definition resolve_bucket :: "runtime \<Rightarrow> real \<Rightarrow> export_state \<Rightarrow> bucket \<Rightarrow> export_state" where
  "resolve_bucket rt smoothingAngle st vertexObj =
     foldl (resolve_group rt vertexObj) st
       (group_normals rt smoothingAngle (b_normals vertexObj))"

subsection \<open>The whole export\<close>

record buffer_geometry =
  position :: "real list"
  normal :: "real list"
  color :: "real list option"
  index :: "nat list"

definition build_buckets :: "runtime \<Rightarrow> polygon list \<Rightarrow> export_state" where
  "build_buckets rt geometry = foldl (add_polygon rt) initial_state geometry"

definition resolve_buckets :: "runtime \<Rightarrow> real \<Rightarrow> export_state \<Rightarrow> export_state" where
  "resolve_buckets rt smoothingAngle st =
     foldl (resolve_bucket rt smoothingAngle) st (map snd (vertexMap st))"

definition flatten_faces :: "nat list list \<Rightarrow> nat list" where
  "flatten_faces fs = concat (map (\<lambda>face. [face ! 0, face ! 1, face ! 2]) fs)"

text \<open>
  Lines 37 to 150 of the source: what \<open>exportThreeGeometry(geometry, smoothingAngle)\<close> builds
  for a mesh \<open>geometry\<close>, given by its polygons, once the guard at its head has let the mesh
  through.
\<close>

definition export_buffers :: "runtime \<Rightarrow> polygon list \<Rightarrow> real \<Rightarrow> buffer_geometry" where
  "export_buffers rt geometry smoothingAngle =
     (let st = resolve_buckets rt smoothingAngle (build_buckets rt geometry);
          indices = flatten_faces (faces st)
      in \<lparr>position = map (float32 rt) (vertices st),
          normal = map (float32 rt) (normalVecs st),
          color = (if colorsUsed st then Some (map (float32 rt) (colors st)) else None),
          index = indices\<rparr>)"

text \<open>
  The guard at the head of the function, line 35, is
  \<open>if (!(geometry instanceof CSG)) return geometry;\<close>. The module imports the mesh class under
  the name \<open>_CSG\<close> and binds the identifier \<open>CSG\<close> nowhere, so what the guard does depends on
  what the host environment binds \<open>CSG\<close> to:

    \<^item> \<open>Unbound\<close>: nothing; evaluating the identifier raises \<open>ReferenceError\<close>. This is the case
      of the module on its own.
    \<^item> \<open>NotCallable\<close>: a value that \<open>instanceof\<close> cannot test against, one that is not a function
      or a function whose \<open>prototype\<close> is not an object; \<open>instanceof\<close> raises \<open>TypeError\<close>.
    \<^item> \<open>Constructor b\<close>: a function, \<open>b\<close> telling whether \<open>geometry\<close> is an instance of it.
      When the host binds \<open>CSG\<close> to the mesh class, a mesh gives \<open>Constructor True\<close>.
\<close>

datatype csg_binding = Unbound | NotCallable | Constructor bool

text \<open>
  What the function returns: its argument, unchanged, or the buffer geometry built from it.
\<close>

datatype export_result = Unchanged "polygon list" | Buffers buffer_geometry

text \<open>
  \<open>exportThreeGeometry(geometry, smoothingAngle)\<close>, with the binding of the free identifier
  \<open>CSG\<close> as a parameter.
\<close>

definition exportThreeGeometry ::
    "runtime \<Rightarrow> csg_binding \<Rightarrow> polygon list \<Rightarrow> real \<Rightarrow> js_error + export_result" where
  "exportThreeGeometry rt CSG geometry smoothingAngle =
     (case CSG of
        Unbound \<Rightarrow> Inl ReferenceError
      | NotCallable \<Rightarrow> Inl TypeError
      | Constructor is_instance \<Rightarrow>
          if \<not> is_instance then Inr (Unchanged geometry)
          else Inr (Buffers (export_buffers rt geometry smoothingAngle)))"

text \<open>The default of the \<open>smoothingAngle\<close> parameter, \<open>40 * Math.PI / 180\<close>.\<close>

definition default_smoothingAngle :: real where
  "default_smoothingAngle = 40 * pi / 180"

section \<open>Notions used to state the properties of the export\<close>

subsection \<open>Greedy grouping, as the specification words it\<close>

text \<open>
  Over the indices still ungrouped, in ascending order: the lowest one becomes the seed of a
  new group, every later one that is close to the seed joins that group, and grouping goes
  on with the others. Closeness is only ever tested against the seed.
\<close>

function greedy_groups :: "(nat \<Rightarrow> nat \<Rightarrow> bool) \<Rightarrow> nat list \<Rightarrow> nat list list" where
  "greedy_groups close [] = []"
| "greedy_groups close (i # rest) =
     (i # filter (close i) rest) # greedy_groups close (filter (\<lambda>j. \<not> close i j) rest)"
  by pat_completeness auto
termination
  by (relation "measure (\<lambda>(close, xs). length xs)") (auto simp: less_Suc_eq_le)

definition within_angle :: "runtime \<Rightarrow> real \<Rightarrow> vector3 list \<Rightarrow> nat \<Rightarrow> nat \<Rightarrow> bool" where
  "within_angle rt smoothingAngle normals i j =
     (vector3_angleTo rt (normals ! i) (normals ! j) \<le> smoothingAngle)"

subsection \<open>Corner instances in creation order\<close>

text \<open>
  One corner of one emitted triangle: the vertex position it was read from, the normal and the
  colour of its polygon, and the slot \<open>(face, idx)\<close> of the index record it has to fill.
\<close>

record corner_instance =
  ci_vertex :: vector3
  ci_normal :: vector3
  ci_colour :: rgb
  ci_slot :: "nat \<times> nat"

definition polygon_colour :: "polygon \<Rightarrow> rgb" where
  "polygon_colour p =
     (case shared_color p of
        Some c \<Rightarrow> \<lparr>cr = color0 c, cg = color1 c, cb = color2 c\<rparr>
      | None \<Rightarrow> \<lparr>cr = 1, cg = 1, cb = 1\<rparr>)"

definition triangle_corners :: "polygon \<Rightarrow> nat \<Rightarrow> nat \<Rightarrow> corner_instance list" where
  "triangle_corners p face x =
     map (\<lambda>vi. \<lparr>ci_vertex = poly_vertices p ! fst vi, ci_normal = plane_normal p,
                 ci_colour = polygon_colour p, ci_slot = (face, snd vi)\<rparr>)
       [(0, 0), (x + 1, 1), (x + 2, 2)]"

definition fan_size :: "polygon \<Rightarrow> nat" where
  "fan_size p = length (poly_vertices p) - 2"

definition polygon_corners :: "polygon \<Rightarrow> nat \<Rightarrow> corner_instance list" where
  "polygon_corners p face0 =
     concat (map (\<lambda>x. triangle_corners p (face0 + x) x) [0..<fan_size p])"

fun mesh_corners :: "nat \<Rightarrow> polygon list \<Rightarrow> corner_instance list" where
  "mesh_corners face0 [] = []"
| "mesh_corners face0 (p # ps) = polygon_corners p face0 @ mesh_corners (face0 + fan_size p) ps"

definition corner_instances :: "polygon list \<Rightarrow> corner_instance list" where
  "corner_instances geometry = mesh_corners 0 geometry"

definition triangle_count :: "polygon list \<Rightarrow> nat" where
  "triangle_count geometry = sum_list (map fan_size geometry)"

subsection \<open>Buckets as a grouping by weld key\<close>

definition weld_key :: "runtime \<Rightarrow> corner_instance \<Rightarrow> string" where
  "weld_key rt c = hash rt (ci_vertex c)"

definition insert_corner ::
  "runtime \<Rightarrow> (string \<times> bucket) list \<Rightarrow> corner_instance \<Rightarrow> (string \<times> bucket) list" where
  "insert_corner rt vmap c =
     (case map_of vmap (weld_key rt c) of
        Some vertexLookup \<Rightarrow>
          AList.update (weld_key rt c)
            (vertexLookup
               \<lparr>b_colours := b_colours vertexLookup @ [ci_colour c],
                b_normals := b_normals vertexLookup @ [ci_normal c],
                b_faces := b_faces vertexLookup @ [ci_slot c]\<rparr>)
            vmap
      | None \<Rightarrow>
          vmap @ [(weld_key rt c, \<lparr>b_vertex = ci_vertex c, b_colours = [ci_colour c],
                                   b_normals = [ci_normal c], b_faces = [ci_slot c]\<rparr>)])"

text \<open>The bucket made of a non-empty list of corner instances, in their order.\<close>

definition collect :: "corner_instance list \<Rightarrow> bucket" where
  "collect cs =
     \<lparr>b_vertex = ci_vertex (hd cs), b_colours = map ci_colour cs,
      b_normals = map ci_normal cs, b_faces = map ci_slot cs\<rparr>"

text \<open>The distinct elements of a list in the order of their first occurrence.\<close>

definition first_occurrences :: "'a list \<Rightarrow> 'a list" where
  "first_occurrences xs = rev (remdups (rev xs))"

definition same_key :: "runtime \<Rightarrow> corner_instance list \<Rightarrow> string \<Rightarrow> corner_instance list" where
  "same_key rt cs h = filter (\<lambda>c. weld_key rt c = h) cs"

definition group_by_key :: "runtime \<Rightarrow> corner_instance list \<Rightarrow> (string \<times> bucket) list" where
  "group_by_key rt cs =
     map (\<lambda>h. (h, collect (same_key rt cs h))) (first_occurrences (map (weld_key rt) cs))"

subsection \<open>The sequence of emitted vertices\<close>

text \<open>
  One pushed vertex: its position, normal and colour, and the slot that is set to its number.
\<close>

record emitted =
  e_position :: vector3
  e_normal :: vector3
  e_colour :: rgb
  e_slot :: "nat \<times> nat"

definition group_emission :: "runtime \<Rightarrow> bucket \<Rightarrow> nat list \<Rightarrow> emitted list" where
  "group_emission rt b g =
     map (\<lambda>j. \<lparr>e_position = b_vertex b, e_normal = average_normal rt (b_normals b) g,
                e_colour = b_colours b ! j, e_slot = b_faces b ! j\<rparr>) g"

definition bucket_emission :: "runtime \<Rightarrow> real \<Rightarrow> bucket \<Rightarrow> emitted list" where
  "bucket_emission rt smoothingAngle b =
     concat (map (group_emission rt b) (group_normals rt smoothingAngle (b_normals b)))"

definition emission :: "runtime \<Rightarrow> real \<Rightarrow> (string \<times> bucket) list \<Rightarrow> emitted list" where
  "emission rt smoothingAngle vmap =
     concat (map (\<lambda>hb. bucket_emission rt smoothingAngle (snd hb)) vmap)"

definition xyz :: "vector3 \<Rightarrow> real list" where
  "xyz v = [vx v, vy v, vz v]"

definition rgb_list :: "rgb \<Rightarrow> real list" where
  "rgb_list c = [cr c, cg c, cb c]"

text \<open>Setting the given slots, in order, to consecutive numbers from \<open>c\<close> on.\<close>

fun write_slots :: "nat list list \<Rightarrow> nat \<Rightarrow> (nat \<times> nat) list \<Rightarrow> nat list list" where
  "write_slots fs c [] = fs"
| "write_slots fs c (s # ss) = write_slots (fs[fst s := (fs ! fst s)[snd s := c]]) (Suc c) ss"

definition apply_emission :: "export_state \<Rightarrow> emitted list \<Rightarrow> export_state" where
  "apply_emission st es =
     st\<lparr>faces := write_slots (faces st) (length (vertices st) div 3) (map e_slot es),
        vertices := vertices st @ concat (map (\<lambda>e. xyz (e_position e)) es),
        normalVecs := normalVecs st @ concat (map (\<lambda>e. xyz (e_normal e)) es),
        colors := colors st @ concat (map (\<lambda>e. rgb_list (e_colour e)) es)\<rparr>"

text \<open>The emitted vertices of a whole export, in the order they are pushed.\<close>

definition export_emission :: "runtime \<Rightarrow> polygon list \<Rightarrow> real \<Rightarrow> emitted list" where
  "export_emission rt geometry smoothingAngle =
     emission rt smoothingAngle (vertexMap (build_buckets rt geometry))"

text \<open>The three entries of a flat buffer that belong to vertex number \<open>v\<close>.\<close>

definition triple :: "'a list \<Rightarrow> nat \<Rightarrow> 'a list" where
  "triple buf v = take 3 (drop (3 * v) buf)"

text \<open>
  The number of vertices of an output, and the vertex number that the index buffer holds for
  corner \<open>idx\<close> of triangle \<open>face\<close>.
\<close>

definition vertex_count :: "buffer_geometry \<Rightarrow> nat" where
  "vertex_count out = length (position out) div 3"

definition slot_vertex :: "buffer_geometry \<Rightarrow> nat \<times> nat \<Rightarrow> nat" where
  "slot_vertex out s = index out ! (3 * fst s + snd s)"

text \<open>The number of smoothing groups found, summed over all buckets.\<close>

definition smoothing_group_count :: "runtime \<Rightarrow> polygon list \<Rightarrow> real \<Rightarrow> nat" where
  "smoothing_group_count rt geometry smoothingAngle =
     sum_list (map (\<lambda>hb. length (group_normals rt smoothingAngle (b_normals (snd hb))))
                 (vertexMap (build_buckets rt geometry)))"

text \<open>The number of corner instances in all smoothing groups of all buckets.\<close>

definition smoothing_group_sizes :: "runtime \<Rightarrow> polygon list \<Rightarrow> real \<Rightarrow> nat" where
  "smoothing_group_sizes rt geometry smoothingAngle =
     sum_list (map (\<lambda>hb. sum_list (map length
                           (group_normals rt smoothingAngle (b_normals (snd hb)))))
                 (vertexMap (build_buckets rt geometry)))"

subsection \<open>Conversion to 32-bit floating point\<close>

text \<open>
  The conversion of a number to an element of a \<open>Float32Array\<close>, as the language defines it:
  the value of IEEE 754 binary32 nearest to the number, the one with an even significand when
  two are equally near. A binary32 value has a significand of 24 bits, so that between \<open>2^e\<close>
  and \<open>2^(e + 1)\<close> the values are \<open>2^(e - 23)\<close> apart, for \<open>e\<close> from -126 on, and \<open>2^(-149)\<close>
  apart below \<open>2^(-126)\<close>. From the magnitude \<open>2^128 - 2^103\<close> on the conversion gives an
  infinity, which a real number cannot stand for: \<open>fround\<close> is the conversion for smaller
  magnitudes only, and nothing is stated with it of larger ones.
\<close>

definition round_half_even :: "real \<Rightarrow> int" where
  "round_half_even y =
     (let n = \<lfloor>y\<rfloor>; d = y - of_int n
      in if d < 1 / 2 then n
         else if 1 / 2 < d then n + 1
         else if even n then n else n + 1)"

definition fround :: "real \<Rightarrow> real" where
  "fround x =
     (if x = 0 then 0
      else (let e = max \<lfloor>log 2 \<bar>x\<bar>\<rfloor> (- 126);
                ulp = 2 powr (of_int e - 23)
            in of_int (round_half_even (x / ulp)) * ulp))"

section \<open>Sample inputs\<close>

text \<open>One triangle given as 9 floats without indices.\<close>

definition soup_triangle :: geometry where
  "soup_triangle = \<lparr>index_array = None, position_array = [0, 0, 0, 1, 0, 0, 0, 1, 0]\<rparr>"

text \<open>Two indices only, over two positions: the index count is not a multiple of 3.\<close>

definition short_index :: geometry where
  "short_index = \<lparr>index_array = Some [0, 1], position_array = [0, 0, 0, 1, 0, 0]\<rparr>"

text \<open>A half-transparent red, as a caller may hand it to dispatch.\<close>

definition translucent_red :: dispatch_color where
  "translucent_red = \<lparr>col_r = 1 / 2, col_g = 0, col_b = 0, col_a = Some (1 / 4)\<rparr>"

text \<open>
  A receiver with no operation of its own: the only function found on it is the \<open>toString\<close>
  that every JavaScript object inherits, which ignores its arguments.
\<close>

definition object_methods :: "csg \<Rightarrow> string \<Rightarrow> (csg list \<Rightarrow> string) option" where
  "object_methods receiver name =
     (if name = ''toString'' then Some (\<lambda>args. ''[object Object]'') else None)"

text \<open>The operation names the specification lists for its allow-list.\<close>

definition allow_list :: "string set" where
  "allow_list = {''union'', ''subtract'', ''intersect''}"

text \<open>
  The library operations computed without rounding, as \<open>THREE.Vector3\<close> defines them:
  componentwise addition, division by the length (or by 1 for the zero vector), and the angle
  as the arc cosine of the clamped normalised dot product (a right angle when a length is 0).
  The sample inputs stay far below \<open>10^21\<close>, so the number rendering is never reached.
\<close>

definition dot :: "vector3 \<Rightarrow> vector3 \<Rightarrow> real" where
  "dot a b = vx a * vx b + vy a * vy b + vz a * vz b"

definition exact_add :: "vector3 \<Rightarrow> vector3 \<Rightarrow> vector3" where
  "exact_add a b = \<lparr>vx = vx a + vx b, vy = vy a + vy b, vz = vz a + vz b\<rparr>"

definition exact_normalize :: "vector3 \<Rightarrow> vector3" where
  "exact_normalize a =
     (let l = sqrt (dot a a); d = (if l = 0 then 1 else l)
      in \<lparr>vx = vx a / d, vy = vy a / d, vz = vz a / d\<rparr>)"

definition exact_angleTo :: "vector3 \<Rightarrow> vector3 \<Rightarrow> real" where
  "exact_angleTo a b =
     (let denominator = sqrt (dot a a * dot b b)
      in if denominator = 0 then pi / 2
         else arccos (max (- 1) (min 1 (dot a b / denominator))))"

definition exact_runtime :: runtime where
  "exact_runtime =
     \<lparr>numberToString = (\<lambda>x. ''1e+21''), vector3_add = exact_add,
      vector3_normalize = exact_normalize, vector3_angleTo = exact_angleTo,
      float32 = (\<lambda>x. x)\<rparr>"

text \<open>The same runtime, except that the conversion to \<open>Float32Array\<close> rounds to binary32.\<close>

definition binary32_runtime :: runtime where
  "binary32_runtime = exact_runtime\<lparr>float32 := fround\<rparr>"

text \<open>
  The unit square in the plane \<open>z = 0\<close>, given as two triangles that share the diagonal from
  \<open>(0, 0, 0)\<close> to \<open>(1, 1, 0)\<close>, both with normal \<open>(0, 0, 1)\<close>, each with its optional colour;
  the plain unit square has no colours.
\<close>

definition vec :: "real \<Rightarrow> real \<Rightarrow> real \<Rightarrow> vector3" where
  "vec a b c = \<lparr>vx = a, vy = b, vz = c\<rparr>"

definition square :: "shared_color option \<Rightarrow> shared_color option \<Rightarrow> polygon list" where
  "square c1 c2 =
     [\<lparr>poly_vertices = [vec 0 0 0, vec 1 0 0, vec 1 1 0], plane_normal = vec 0 0 1,
       shared_color = c1\<rparr>,
      \<lparr>poly_vertices = [vec 0 0 0, vec 1 1 0, vec 0 1 0], plane_normal = vec 0 0 1,
       shared_color = c2\<rparr>]"

definition unit_square :: "polygon list" where
  "unit_square = square None None"

text \<open>The same square with a half-red first triangle and an uncoloured second one.\<close>

definition two_tone_square :: "polygon list" where
  "two_tone_square = square (Some (RGBA (1 / 2) 0 0 1)) None"

text \<open>The unit square as one polygon of 4 vertices.\<close>

definition quad_face :: "polygon list" where
  "quad_face =
     [\<lparr>poly_vertices = [vec 0 0 0, vec 1 0 0, vec 1 1 0, vec 0 1 0], plane_normal = vec 0 0 1,
       shared_color = None\<rparr>]"

text \<open>
  A triangle in the plane \<open>z = 0\<close> with a vertex far out on the \<open>x\<close> axis, at
  \<open>100000.0029296875\<close>, a number that a double holds exactly and binary32 does not.
\<close>

definition far_x :: real where
  "far_x = 100000 + 3 / 1024"

definition far_triangle :: "polygon list" where
  "far_triangle =
     [\<lparr>poly_vertices = [vec 0 0 0, vec far_x 0 0, vec 0 1 0], plane_normal = vec 0 0 1,
       shared_color = None\<rparr>]"

text \<open>
  Three unit normals in the plane \<open>z = 0\<close>, at 0, 30 and 60 degrees from the \<open>x\<close> axis.
\<close>

definition fan_normals :: "vector3 list" where
  "fan_normals = [vec 1 0 0, vec (sqrt 3 / 2) (1 / 2) 0, vec (1 / 2) (sqrt 3 / 2) 0]"

text \<open>The corner instances and emitted vertices of the square.\<close>

definition white :: rgb where
  "white = \<lparr>cr = 1, cg = 1, cb = 1\<rparr>"

definition shade :: "shared_color option \<Rightarrow> rgb" where
  "shade c = (case c of Some s \<Rightarrow> \<lparr>cr = color0 s, cg = color1 s, cb = color2 s\<rparr> | None \<Rightarrow> white)"

definition corner :: "vector3 \<Rightarrow> rgb \<Rightarrow> nat \<times> nat \<Rightarrow> corner_instance" where
  "corner v col s = \<lparr>ci_vertex = v, ci_normal = vec 0 0 1, ci_colour = col, ci_slot = s\<rparr>"

definition out_vertex :: "vector3 \<Rightarrow> rgb \<Rightarrow> nat \<times> nat \<Rightarrow> emitted" where
  "out_vertex v col s = \<lparr>e_position = v, e_normal = vec 0 0 1, e_colour = col, e_slot = s\<rparr>"

section \<open>Properties of ingestion\<close>

lemma step_div:
  assumes "x < n" and "0 < k"
  shows "Suc ((n - (x + k) + (k - 1)) div k) = (n - x + (k - 1)) div k"
proof (cases "x + k \<le> n")
  case True
  then have "n - x + (k - 1) = (n - (x + k) + (k - 1)) + k"
    by simp
  then have "(n - x + (k - 1)) div k = (n - (x + k) + (k - 1) + k) div k"
    by (rule arg_cong)
  also have "\<dots> = Suc ((n - (x + k) + (k - 1)) div k)"
    using assms(2) by (simp only: div_add_self2)
  finally show ?thesis by (rule sym)
next
  case False
  then have z: "n - (x + k) = 0" and "k \<le> n - x + (k - 1)" and "n - x + (k - 1) < 2 * k"
    using assms by simp_all
  then have "(n - x + (k - 1)) div k = 1"
    by (intro div_nat_eqI) simp_all
  moreover have "(k - 1) div k = 0" using assms(2) by simp
  ultimately show ?thesis
    using z by (simp only: add_0)
qed

lemma upt_Suc_shift: "map f [0..<Suc m] = f 0 # map (\<lambda>i. f (Suc i)) [0..<m]"
  by (simp only: upt_conv_Cons [OF zero_less_Suc] list.map map_Suc_upt [symmetric] map_map o_def)

lemma indexed_loop_eq:
  "indexed_loop ixs vectors x ps =
     ps @ map (\<lambda>i. new_Polygon (getVertexes ixs vectors (x + 3 * i)))
            [0..<(length ixs - x + 2) div 3]"
proof (induction ixs vectors x ps rule: indexed_loop.induct)
  case (1 ixs vectors x ps)
  show ?case
  proof (cases "x < length ixs")
    case True
    have cnt: "(length ixs - x + 2) div 3 = Suc ((length ixs - (x + 3) + 2) div 3)"
      using step_div [OF True, of 3] by simp
    have "indexed_loop ixs vectors x ps =
          indexed_loop ixs vectors (x + 3)
            (ps @ [new_Polygon (getVertexes ixs vectors x)])"
      using True by (subst indexed_loop.simps) simp
    also have "\<dots> = (ps @ [new_Polygon (getVertexes ixs vectors x)]) @
          map (\<lambda>i. new_Polygon (getVertexes ixs vectors (x + 3 + 3 * i)))
            [0..<(length ixs - (x + 3) + 2) div 3]"
      using "1.IH" [OF True] .
    also have "\<dots> = ps @ map (\<lambda>i. new_Polygon (getVertexes ixs vectors (x + 3 * i)))
            [0..<(length ixs - x + 2) div 3]"
      unfolding cnt upt_Suc_shift by (simp add: add.assoc)
    finally show ?thesis .
  next
    case False
    then show ?thesis by (subst indexed_loop.simps) simp
  qed
qed

lemma soup_loop_eq:
  "soup_loop vectors x ps =
     ps @ map (\<lambda>i. new_Polygon [getVertex2 vectors (x + 9 * i), getVertex2 vectors (x + 9 * i + 3),
                                 getVertex2 vectors (x + 9 * i + 6)])
            [0..<(length vectors - x + 8) div 9]"
proof (induction vectors x ps rule: soup_loop.induct)
  case (1 vectors x ps)
  show ?case
  proof (cases "x < length vectors")
    case True
    have cnt: "(length vectors - x + 8) div 9 = Suc ((length vectors - (x + 9) + 8) div 9)"
      using step_div [OF True, of 9] by simp
    have "soup_loop vectors x ps =
          soup_loop vectors (x + 9)
            (ps @ [new_Polygon [getVertex2 vectors x, getVertex2 vectors (x + 3),
                                getVertex2 vectors (x + 6)]])"
      using True by (subst soup_loop.simps) simp
    also have "\<dots> = (ps @ [new_Polygon [getVertex2 vectors x, getVertex2 vectors (x + 3),
                                getVertex2 vectors (x + 6)]]) @
          map (\<lambda>i. new_Polygon [getVertex2 vectors (x + 9 + 9 * i),
                                getVertex2 vectors (x + 9 + 9 * i + 3),
                                getVertex2 vectors (x + 9 + 9 * i + 6)])
            [0..<(length vectors - (x + 9) + 8) div 9]"
      using "1.IH" [OF True] .
    also have "\<dots> = ps @ map (\<lambda>i. new_Polygon [getVertex2 vectors (x + 9 * i),
                                getVertex2 vectors (x + 9 * i + 3),
                                getVertex2 vectors (x + 9 * i + 6)])
            [0..<(length vectors - x + 8) div 9]"
      unfolding cnt upt_Suc_shift by (simp add: add.assoc)
    finally show ?thesis .
  next
    case False
    then show ?thesis by (subst soup_loop.simps) simp
  qed
qed

lemma getVertex_defined:
  assumes "x < length ixs" and "ixs ! x * 3 + 3 \<le> length vectors"
  shows "defined_vertex (getVertex ixs vectors x)"
  using assms by (simp add: getVertex_def getVector_def nth_opt_def)

lemma getVertex2_defined:
  assumes "x + 3 \<le> length vectors"
  shows "defined_vertex (getVertex2 vectors x)"
  using assms by (simp add: getVertex2_def nth_opt_def)


lemma mod3_div: "n mod 3 = 0 \<Longrightarrow> i < (n + 2) div 3 \<Longrightarrow> 3 * i + 2 < (n::nat)"
  by arith

lemma mod9_div: "n mod 9 = 0 \<Longrightarrow> i < (n + 8) div 9 \<Longrightarrow> 9 * i + 9 \<le> (n::nat)"
  by arith

lemma importThreeGeometry_polygons:
  "polygons (importThreeGeometry (Geometry g)) =
     (if length (index_entries g) \<noteq> 0
      then map (\<lambda>i. new_Polygon (getVertexes (index_entries g) (position_array g) (3 * i)))
             [0..<(length (index_entries g) + 2) div 3]
      else map (\<lambda>i. new_Polygon [getVertex2 (position_array g) (9 * i),
                                   getVertex2 (position_array g) (9 * i + 3),
                                   getVertex2 (position_array g) (9 * i + 6)])
             [0..<(length (position_array g) + 8) div 9])"
  by (simp add: importThreeGeometry_def Let_def indexed_loop_eq soup_loop_eq)

text \<open>
  C5 (as amended). Ingestion validates nothing and reports no error: it always returns a mesh.
  With a non-empty k array of \<open>n\<close> entries it builds one triangle for each started group of
  3 indices, otherwise one triangle for each started group of 9 position floats, and every
  read outside a buffer yields an undefined coordinate. When the groups are whole and every
  k lies within the position array, every triangle has three ixs whose coordinates
  are all numbers of the buffer.
\<close>

theorem importThreeGeometry_unvalidated:
  "polygons (importThreeGeometry (Geometry g)) =
     (if length (index_entries g) \<noteq> 0
      then map (\<lambda>i. new_Polygon (getVertexes (index_entries g) (position_array g) (3 * i)))
             [0..<(length (index_entries g) + 2) div 3]
      else map (\<lambda>i. new_Polygon [getVertex2 (position_array g) (9 * i),
                                   getVertex2 (position_array g) (9 * i + 3),
                                   getVertex2 (position_array g) (9 * i + 6)])
             [0..<(length (position_array g) + 8) div 9])
   \<and> (well_shaped g \<longrightarrow>
        (\<forall>p \<in> set (polygons (importThreeGeometry (Geometry g))). defined_polygon p))"
proof (intro conjI impI ballI)
  show "polygons (importThreeGeometry (Geometry g)) =
     (if length (index_entries g) \<noteq> 0
      then map (\<lambda>i. new_Polygon (getVertexes (index_entries g) (position_array g) (3 * i)))
             [0..<(length (index_entries g) + 2) div 3]
      else map (\<lambda>i. new_Polygon [getVertex2 (position_array g) (9 * i),
                                   getVertex2 (position_array g) (9 * i + 3),
                                   getVertex2 (position_array g) (9 * i + 6)])
             [0..<(length (position_array g) + 8) div 9])"
    by (rule importThreeGeometry_polygons)
next
  fix p
  assume ws: "well_shaped g" and p: "p \<in> set (polygons (importThreeGeometry (Geometry g)))"
  show "defined_polygon p"
  proof (cases "length (index_entries g) \<noteq> 0")
    case True
    from ws True have m: "length (index_entries g) mod 3 = 0"
      and r: "\<forall>v \<in> set (index_entries g). v * 3 + 3 \<le> length (position_array g)"
      by (simp_all add: well_shaped_def)
    from p True obtain i where i: "i < (length (index_entries g) + 2) div 3"
      and pe: "p = new_Polygon (getVertexes (index_entries g) (position_array g) (3 * i))"
      by (auto simp: importThreeGeometry_polygons)
    have lt: "3 * i + 2 < length (index_entries g)"
      using mod3_div [OF m i] .
    have "defined_vertex (getVertex (index_entries g) (position_array g) (3 * i + k))"
      if "k \<le> 2" for k
    proof (rule getVertex_defined)
      show "3 * i + k < length (index_entries g)" using lt that by simp
      then have "index_entries g ! (3 * i + k) \<in> set (index_entries g)" by simp
      with r show "index_entries g ! (3 * i + k) * 3 + 3 \<le> length (position_array g)" by blast
    qed
    from this [of 0] this [of 1] this [of 2] show ?thesis
      by (simp add: pe defined_polygon_def new_Polygon_def getVertexes_def)
  next
    case False
    with ws have m: "length (position_array g) mod 9 = 0"
      by (simp add: well_shaped_def)
    from p False obtain i where i: "i < (length (position_array g) + 8) div 9"
      and pe: "p = new_Polygon [getVertex2 (position_array g) (9 * i),
                               getVertex2 (position_array g) (9 * i + 3),
                               getVertex2 (position_array g) (9 * i + 6)]"
      by (auto simp: importThreeGeometry_polygons)
    have le: "9 * i + 9 \<le> length (position_array g)"
      using mod9_div [OF m i] .
    have "defined_vertex (getVertex2 (position_array g) (9 * i + k))" if "k \<le> 6" for k
      by (rule getVertex2_defined) (use le that in simp)
    from this [of 0] this [of 3] this [of 6] show ?thesis
      by (simp add: pe defined_polygon_def new_Polygon_def)
  qed
qed

theorem importThreeGeometry_unvalidated_witness:
  "well_shaped soup_triangle \<and>
   polygons (importThreeGeometry (Geometry soup_triangle)) =
     [new_Polygon [Vertex (Some 0) (Some 0) (Some 0), Vertex (Some 1) (Some 0) (Some 0),
                   Vertex (Some 0) (Some 1) (Some 0)]] \<and>
   defined_polygon (polygons (importThreeGeometry (Geometry soup_triangle)) ! 0)"
proof -
  have ws: "well_shaped soup_triangle"
    by (simp add: well_shaped_def soup_triangle_def index_entries_def)
  have ps: "polygons (importThreeGeometry (Geometry soup_triangle)) =
     [new_Polygon [Vertex (Some 0) (Some 0) (Some 0), Vertex (Some 1) (Some 0) (Some 0),
                   Vertex (Some 0) (Some 1) (Some 0)]]"
    using importThreeGeometry_unvalidated [of soup_triangle]
    by (simp add: soup_triangle_def index_entries_def getVertex2_def nth_opt_def)
  have "\<forall>p \<in> set (polygons (importThreeGeometry (Geometry soup_triangle))). defined_polygon p"
    using importThreeGeometry_unvalidated [of soup_triangle] ws by blast
  then have "defined_polygon (polygons (importThreeGeometry (Geometry soup_triangle)) ! 0)"
    by (simp add: ps)
  with ws ps show ?thesis by blast
qed

text \<open>
  C5 as stated fails: for an k array of length 2, which the specification calls malformed,
  ingestion returns a mesh of one triangle whose third vertex has undefined coordinates
  instead of reporting a validation error.
\<close>

theorem importThreeGeometry_malformed_counterexample:
  "malformed short_index \<and>
   importThreeGeometry (Geometry short_index) =
     \<lparr>polygons = [\<lparr>pvertices = [Vertex (Some 0) (Some 0) (Some 0),
                                Vertex (Some 1) (Some 0) (Some 0),
                                Vertex None None None],
                   pshared_color = None\<rparr>],
      isCanonicalized = False, isRetesselated = False\<rparr>"
  by (simp add: malformed_def short_index_def importThreeGeometry_def index_entries_def
      indexed_loop.simps new_Polygon_def getVertexes_def getVertex_def getVector_def nth_opt_def)

section \<open>Properties of dispatch\<close>

lemma prepareObjects_nth:
  assumes "k < length objects"
  shows "prepareObjects sc objects cols ! k = prepareObject sc cols (objects ! k, k)"
  using assms by (simp add: prepareObjects_def)

lemma setColor_uniform_polygons:
  "p \<in> set (polygons (setColor_uniform c args)) \<Longrightarrow> pshared_color p = Some args"
  by (auto simp: setColor_uniform_def)

text \<open>
  C10. When dispatch is given a colour for an input, \<open>setColor\<close> is called on the converted
  mesh with the 4-tuple \<open>[r, g, b, 1]\<close>, whatever \<open>setColor\<close> does and whatever alpha the supplied
  colour carried; with a \<open>setColor\<close> that colours the whole mesh, every polygon of the prepared
  mesh carries that shared colour, whose alpha is 1.
\<close>

theorem prepareObjects_opaque_color:
  assumes "k < length objects" and "nth_opt cols k = Some (Some c)"
  shows "prepareObjects sc objects cols ! k =
           sc (importThreeGeometry (objects ! k)) [col_r c, col_g c, col_b c, 1] \<and>
         (\<forall>p \<in> set (polygons (prepareObjects setColor_uniform objects cols ! k)).
            pshared_color p = Some [col_r c, col_g c, col_b c, 1])"
proof -
  have eq: "prepareObjects sc objects cols ! k =
           sc (importThreeGeometry (objects ! k)) [col_r c, col_g c, col_b c, 1]" for sc
    using assms by (simp add: prepareObjects_nth prepareObject_def)
  then show ?thesis
    by (simp add: setColor_uniform_polygons)
qed

theorem prepareObjects_opaque_color_witness:
  "(0::nat) < length [Geometry soup_triangle] \<and>
   nth_opt [Some translucent_red] 0 = Some (Some translucent_red) \<and>
   col_a translucent_red = Some (1 / 4) \<and>
   polygons (prepareObjects setColor_uniform [Geometry soup_triangle] [Some translucent_red] ! 0) =
     [\<lparr>pvertices = [Vertex (Some 0) (Some 0) (Some 0), Vertex (Some 1) (Some 0) (Some 0),
                    Vertex (Some 0) (Some 1) (Some 0)],
       pshared_color = Some [1 / 2, 0, 0, 1]\<rparr>]"
proof -
  have h1: "(0::nat) < length [Geometry soup_triangle]"
    by simp
  have h2: "nth_opt [Some translucent_red] 0 = Some (Some translucent_red)"
    by (simp add: nth_opt_def)
  have "polygons (importThreeGeometry (Geometry soup_triangle)) =
     [new_Polygon [Vertex (Some 0) (Some 0) (Some 0), Vertex (Some 1) (Some 0) (Some 0),
                   Vertex (Some 0) (Some 1) (Some 0)]]"
    by (simp add: importThreeGeometry_polygons soup_triangle_def index_entries_def
        getVertex2_def nth_opt_def)
  then have "polygons (prepareObjects setColor_uniform [Geometry soup_triangle]
                         [Some translucent_red] ! 0) =
     [\<lparr>pvertices = [Vertex (Some 0) (Some 0) (Some 0), Vertex (Some 1) (Some 0) (Some 0),
                    Vertex (Some 0) (Some 1) (Some 0)],
       pshared_color = Some [1 / 2, 0, 0, 1]\<rparr>]"
    using prepareObjects_opaque_color [OF h1 h2, of setColor_uniform, THEN conjunct1]
    by (simp add: setColor_uniform_def new_Polygon_def translucent_red_def)
  then show ?thesis
    using h1 h2 by (simp add: translucent_red_def)
qed

text \<open>
  C6 (as amended). Dispatch keeps no allow-list and never reports an unsupported operation.
  After all inputs have been converted it looks the requested name up on the first mesh: when
  the name yields a function, whatever the name is, the function is invoked on the remaining
  meshes and its result returned; when it does not, or when there is no input at all, the
  caller gets the runtime's type error.
\<close>

theorem runOperation_dynamic_lookup:
  "runOperation sc methods operation objects cols \<noteq> Inl UnsupportedOperationError \<and>
   runOperation sc methods operation objects cols \<noteq> Inl ValidationError \<and>
   (objects = [] \<longrightarrow> runOperation sc methods operation objects cols = Inl TypeError) \<and>
   (objects \<noteq> [] \<longrightarrow>
      runOperation sc methods operation objects cols =
        (case methods (hd (prepareObjects sc objects cols)) operation of
           None \<Rightarrow> Inl TypeError
         | Some m \<Rightarrow> Inr (m (tl (prepareObjects sc objects cols)))))"
proof -
  have len: "length (prepareObjects sc objects cols) = length objects"
    by (simp add: prepareObjects_def)
  show ?thesis
  proof (cases "prepareObjects sc objects cols")
    case Nil
    with len have "objects = []" by simp
    with Nil show ?thesis by (simp add: runOperation_def)
  next
    case (Cons firstObject rest)
    with len have "objects \<noteq> []" by auto
    with Cons show ?thesis
      by (simp add: runOperation_def split: option.split)
  qed
qed

theorem runOperation_dynamic_lookup_witness:
  "[Geometry soup_triangle] \<noteq> [] \<and>
   runOperation setColor_uniform object_methods ''toString'' [Geometry soup_triangle] [] =
     Inr ''[object Object]'' \<and>
   runOperation setColor_uniform object_methods ''union'' [Geometry soup_triangle] [] =
     Inl TypeError \<and>
   runOperation setColor_uniform object_methods ''union'' [] [] = Inl TypeError"
proof -
  have ne: "[Geometry soup_triangle] \<noteq> []"
    by simp
  have "runOperation setColor_uniform object_methods ''toString'' [Geometry soup_triangle] [] =
          Inr ''[object Object]''"
    using runOperation_dynamic_lookup
      [of setColor_uniform object_methods "''toString''" "[Geometry soup_triangle]" "[]"]
    by (simp add: object_methods_def)
  moreover have "runOperation setColor_uniform object_methods ''union'' [Geometry soup_triangle] [] =
          Inl TypeError"
    using runOperation_dynamic_lookup
      [of setColor_uniform object_methods "''union''" "[Geometry soup_triangle]" "[]"]
    by (simp add: object_methods_def)
  moreover have "runOperation setColor_uniform object_methods ''union'' [] [] = Inl TypeError"
    using runOperation_dynamic_lookup [of setColor_uniform object_methods "''union''" "[]" "[]"]
    by simp
  ultimately show ?thesis
    using ne by blast
qed

text \<open>
  C6 as stated fails. The name \<open>toString\<close> is in no list of boolean operations, yet dispatch
  calls the function every object inherits under that name and returns its result; and for a
  name the receiver does not have, the caller sees a type error raised by the call itself,
  after all conversion work, not an unsupported-operation error.
\<close>

theorem runOperation_allow_list_counterexample:
  "''toString'' \<notin> allow_list \<and> ''frobnicate'' \<notin> allow_list \<and>
   runOperation setColor_uniform object_methods ''toString'' [Geometry soup_triangle] [] =
     Inr ''[object Object]'' \<and>
   runOperation setColor_uniform object_methods ''frobnicate'' [Geometry soup_triangle] [] =
     Inl TypeError"
  by (simp add: allow_list_def runOperation_def prepareObjects_def object_methods_def)

section \<open>Smoothing groups are the greedy groups\<close>

lemma scan_normal_fold:
  assumes "distinct js" and "\<forall>j \<in> set js. j < length u"
  shows "foldl (scan_normal rt a normals i) (g, u) js =
           (g @ filter (\<lambda>j. u ! j \<and> within_angle rt a normals i j) js,
            map (\<lambda>j. u ! j \<and> \<not> (j \<in> set js \<and> within_angle rt a normals i j)) [0..<length u])"
  using assms
proof (induction js arbitrary: g u)
  case Nil
  show ?case by (simp add: map_nth)
next
  case (Cons j js)
  let ?u' = "if u ! j \<and> within_angle rt a normals i j then u[j := False] else u"
  let ?g' = "if u ! j \<and> within_angle rt a normals i j then g @ [j] else g"
  have step: "scan_normal rt a normals i (g, u) j = (?g', ?u')"
    by (simp add: scan_normal_def within_angle_def Let_def)
  have len: "length ?u' = length u" by simp
  have jl: "j < length u" and jn: "j \<notin> set js" and d: "distinct js"
    and r: "\<forall>j \<in> set js. j < length ?u'"
    using Cons.prems by auto
  have nth': "?u' ! m = (u ! m \<and> \<not> (m = j \<and> within_angle rt a normals i j))"
    if "m < length u" for m
    using that jl by (auto simp: nth_list_update)
  have f: "filter (\<lambda>m. ?u' ! m \<and> within_angle rt a normals i m) js =
           filter (\<lambda>m. u ! m \<and> within_angle rt a normals i m) js"
    using jn Cons.prems(2) by (intro filter_cong) (auto simp: nth_list_update)
  have m: "map (\<lambda>m. ?u' ! m \<and> \<not> (m \<in> set js \<and> within_angle rt a normals i m)) [0..<length ?u'] =
           map (\<lambda>m. u ! m \<and> \<not> (m \<in> set (j # js) \<and> within_angle rt a normals i m)) [0..<length u]"
    unfolding len by (intro map_cong refl) (auto simp: nth')
  have "foldl (scan_normal rt a normals i) (g, u) (j # js) =
        foldl (scan_normal rt a normals i) (?g', ?u') js"
    by (simp only: foldl_Cons step)
  also have "\<dots> = (?g' @ filter (\<lambda>m. ?u' ! m \<and> within_angle rt a normals i m) js,
            map (\<lambda>m. ?u' ! m \<and> \<not> (m \<in> set js \<and> within_angle rt a normals i m)) [0..<length ?u'])"
    by (rule Cons.IH [OF d r])
  also have "\<dots> = (g @ filter (\<lambda>m. u ! m \<and> within_angle rt a normals i m) (j # js),
            map (\<lambda>m. u ! m \<and> \<not> (m \<in> set (j # js) \<and> within_angle rt a normals i m)) [0..<length u])"
    unfolding f m by simp
  finally show ?case .
qed


lemma seed_group_fold:
  assumes "length u = length normals"
  shows "snd (foldl (seed_group rt a normals) (u, G) [i..<length normals]) =
           G @ greedy_groups (within_angle rt a normals) (filter (\<lambda>j. u ! j) [i..<length normals])"
  using assms
proof (induction "length normals - i" arbitrary: i u G)
  case 0
  then show ?case by simp
next
  case (Suc d)
  let ?n = "length normals"
  let ?close = "within_angle rt a normals"
  from Suc.hyps(2) have lt: "i < ?n" by simp
  then have upt: "[i..<?n] = i # [Suc i..<?n]"
    by (rule upt_conv_Cons)
  have d: "d = ?n - Suc i" using Suc.hyps(2) by simp
  show ?case
  proof (cases "u ! i")
    case False
    then have "seed_group rt a normals (u, G) i = (u, G)"
      by (simp add: seed_group_def)
    then have "snd (foldl (seed_group rt a normals) (u, G) [i..<?n]) =
               snd (foldl (seed_group rt a normals) (u, G) [Suc i..<?n])"
      by (simp only: upt foldl_Cons)
    also have "\<dots> = G @ greedy_groups ?close (filter (\<lambda>j. u ! j) [Suc i..<?n])"
      by (rule Suc.hyps(1) [OF d Suc.prems])
    also have "filter (\<lambda>j. u ! j) [Suc i..<?n] = filter (\<lambda>j. u ! j) [i..<?n]"
      using False by (simp add: upt)
    finally show ?thesis .
  next
    case True
    let ?v = "u[i := False]"
    let ?u' = "map (\<lambda>j. ?v ! j \<and> \<not> (j \<in> set [i..<?n] \<and> ?close i j)) [0..<length ?v]"
    let ?grp = "[i] @ filter (\<lambda>j. ?v ! j \<and> ?close i j) [i..<?n]"
    have inner: "foldl (scan_normal rt a normals i) ([i], ?v) [i..<?n] = (?grp, ?u')"
      by (rule scan_normal_fold) (simp_all add: Suc.prems)
    have step: "seed_group rt a normals (u, G) i = (?u', G @ [?grp])"
      using True by (simp add: seed_group_def inner)
    have lu': "length ?u' = ?n"
      by (simp add: Suc.prems)
    have grp: "?grp = i # filter (?close i) (filter (\<lambda>j. u ! j) [Suc i..<?n])"
      using lt Suc.prems by (auto simp: upt intro!: filter_cong)
    have rest: "filter (\<lambda>j. ?u' ! j) [Suc i..<?n] =
                filter (\<lambda>j. \<not> ?close i j) (filter (\<lambda>j. u ! j) [Suc i..<?n])"
      using Suc.prems by (auto simp: intro!: filter_cong)
    have "snd (foldl (seed_group rt a normals) (u, G) [i..<?n]) =
          snd (foldl (seed_group rt a normals) (?u', G @ [?grp]) [Suc i..<?n])"
      by (simp only: upt foldl_Cons step)
    also have "\<dots> = (G @ [?grp]) @ greedy_groups ?close (filter (\<lambda>j. ?u' ! j) [Suc i..<?n])"
      by (rule Suc.hyps(1) [OF d lu'])
    also have "\<dots> = G @ greedy_groups ?close (i # filter (\<lambda>j. u ! j) [Suc i..<?n])"
      unfolding rest grp by simp
    also have "i # filter (\<lambda>j. u ! j) [Suc i..<?n] = filter (\<lambda>j. u ! j) [i..<?n]"
      using True by (simp add: upt)
    finally show ?thesis .
  qed
qed

lemma group_normals_greedy:
  "group_normals rt a normals =
     greedy_groups (within_angle rt a normals) [0..<length normals]"
proof -
  have "filter (\<lambda>j. map (\<lambda>n. True) normals ! j) [0..<length normals] = [0..<length normals]"
    by (rule filter_True) simp
  then show ?thesis
    unfolding group_normals_def
    using seed_group_fold [of "map (\<lambda>n. True) normals" normals rt a "[]" 0] by simp
qed

lemma greedy_groups_mset: "mset (concat (greedy_groups close xs)) = mset xs"
proof (induction close xs rule: greedy_groups.induct)
  case (1 close)
  show ?case by simp
next
  case (2 close i rest)
  have "mset (filter (close i) rest) + mset (filter (\<lambda>j. \<not> close i j) rest) = mset rest"
    by (simp add: multiset_partition [symmetric])
  then show ?case
    using "2.IH" by (simp add: add.assoc)
qed

lemma greedy_groups_seed:
  "g \<in> set (greedy_groups close xs) \<Longrightarrow>
     g \<noteq> [] \<and> (\<forall>j \<in> set (tl g). close (hd g) j) \<and> set g \<subseteq> set xs"
proof (induction close xs rule: greedy_groups.induct)
  case (1 close)
  then show ?case by simp
next
  case (2 close i rest)
  then show ?case by auto
qed

section \<open>Triangulation and bucketing as a grouping of the corner instances\<close>

lemma add_corner_insert:
  "add_corner rt p (plane_normal p) (polygon_colour p) face vmap vi =
     insert_corner rt vmap
       \<lparr>ci_vertex = poly_vertices p ! fst vi, ci_normal = plane_normal p,
        ci_colour = polygon_colour p, ci_slot = (face, snd vi)\<rparr>"
  by (cases vi) (simp add: add_corner_def insert_corner_def weld_key_def Let_def split: option.split)

lemma add_triangle_eq:
  "add_triangle rt p (plane_normal p) (polygon_colour p) st x =
     st\<lparr>faces := faces st @ [[0, 0, 0]],
        vertexMap := foldl (insert_corner rt) (vertexMap st)
                       (triangle_corners p (length (faces st)) x)\<rparr>"
  by (simp add: add_triangle_def Let_def add_corner_insert triangle_corners_def)

lemma foldl_add_triangle:
  "foldl (add_triangle rt p (plane_normal p) (polygon_colour p)) st [0..<m] =
     st\<lparr>faces := faces st @ replicate m [0, 0, 0],
        vertexMap := foldl (insert_corner rt) (vertexMap st)
                       (concat (map (\<lambda>x. triangle_corners p (length (faces st) + x) x) [0..<m]))\<rparr>"
proof (induction m)
  case 0
  show ?case by simp
next
  case (Suc m)
  let ?f = "add_triangle rt p (plane_normal p) (polygon_colour p)"
  have "foldl ?f st [0..<Suc m] = ?f (foldl ?f st [0..<m]) m"
    by simp
  also have "\<dots> = ?f (st\<lparr>faces := faces st @ replicate m [0, 0, 0],
        vertexMap := foldl (insert_corner rt) (vertexMap st)
                       (concat (map (\<lambda>x. triangle_corners p (length (faces st) + x) x) [0..<m]))\<rparr>) m"
    by (simp only: Suc.IH)
  also have "\<dots> = st\<lparr>faces := faces st @ replicate (Suc m) [0, 0, 0],
        vertexMap := foldl (insert_corner rt) (vertexMap st)
                       (concat (map (\<lambda>x. triangle_corners p (length (faces st) + x) x) [0..<Suc m]))\<rparr>"
    by (simp add: add_triangle_eq replicate_append_same)
  finally show ?case .
qed

lemma add_polygon_eq:
  "add_polygon rt st p =
     st\<lparr>colorsUsed := colorsUsed st \<or> shared_color p \<noteq> None,
        faces := faces st @ replicate (fan_size p) [0, 0, 0],
        vertexMap := foldl (insert_corner rt) (vertexMap st)
                       (polygon_corners p (length (faces st)))\<rparr>"
proof -
  have c: "(case (case shared_color p of None \<Rightarrow> (1, 1, 1)
                   | Some c \<Rightarrow> (color0 c, color1 c, color2 c)) of
              (r, g, b) \<Rightarrow> \<lparr>cr = r, cg = g, cb = b\<rparr>) = polygon_colour p"
    by (simp add: polygon_colour_def split: option.split)
  show ?thesis
    unfolding add_polygon_def Let_def c
    by (cases "shared_color p")
       (simp_all add: foldl_add_triangle polygon_corners_def fan_size_def)
qed

lemma foldl_add_polygon:
  "foldl (add_polygon rt) st ps =
     st\<lparr>colorsUsed := colorsUsed st \<or> (\<exists>p \<in> set ps. shared_color p \<noteq> None),
        faces := faces st @ replicate (triangle_count ps) [0, 0, 0],
        vertexMap := foldl (insert_corner rt) (vertexMap st)
                       (mesh_corners (length (faces st)) ps)\<rparr>"
proof (induction ps arbitrary: st)
  case Nil
  show ?case by (simp add: triangle_count_def)
next
  case (Cons p ps)
  let ?st = "st\<lparr>colorsUsed := colorsUsed st \<or> shared_color p \<noteq> None,
        faces := faces st @ replicate (fan_size p) [0, 0, 0],
        vertexMap := foldl (insert_corner rt) (vertexMap st)
                       (polygon_corners p (length (faces st)))\<rparr>"
  have "foldl (add_polygon rt) st (p # ps) = foldl (add_polygon rt) ?st ps"
    by (simp only: foldl_Cons add_polygon_eq)
  also have "\<dots> = ?st\<lparr>colorsUsed := colorsUsed ?st \<or> (\<exists>p \<in> set ps. shared_color p \<noteq> None),
        faces := faces ?st @ replicate (triangle_count ps) [0, 0, 0],
        vertexMap := foldl (insert_corner rt) (vertexMap ?st)
                       (mesh_corners (length (faces ?st)) ps)\<rparr>"
    by (rule Cons.IH)
  also have "\<dots> = st\<lparr>colorsUsed := colorsUsed st \<or> (\<exists>p \<in> set (p # ps). shared_color p \<noteq> None),
        faces := faces st @ replicate (triangle_count (p # ps)) [0, 0, 0],
        vertexMap := foldl (insert_corner rt) (vertexMap st)
                       (mesh_corners (length (faces st)) (p # ps))\<rparr>"
    by (simp add: triangle_count_def replicate_add disj_ac)
  finally show ?case .
qed

lemma build_buckets_eq:
  "build_buckets rt geometry =
     initial_state
       \<lparr>colorsUsed := (\<exists>p \<in> set geometry. shared_color p \<noteq> None),
        faces := replicate (triangle_count geometry) [0, 0, 0],
        vertexMap := foldl (insert_corner rt) [] (corner_instances geometry)\<rparr>"
  by (simp add: build_buckets_def foldl_add_polygon corner_instances_def initial_state_def)

lemma first_occurrences_snoc:
  "first_occurrences (xs @ [x]) =
     (if x \<in> set xs then first_occurrences xs else first_occurrences xs @ [x])"
  by (simp add: first_occurrences_def)

lemma set_first_occurrences: "set (first_occurrences xs) = set xs"
  by (simp add: first_occurrences_def)

lemma distinct_first_occurrences: "distinct (first_occurrences xs)"
  by (simp add: first_occurrences_def)

lemma map_of_keyed:
  "map_of (map (\<lambda>h. (h, f h)) ks) k = (if k \<in> set ks then Some (f k) else None)"
  by (induction ks) auto

lemma update_keyed:
  "k \<in> set ks \<Longrightarrow> distinct ks \<Longrightarrow>
     AList.update k v (map (\<lambda>h. (h, f h)) ks) = map (\<lambda>h. (h, if h = k then v else f h)) ks"
  by (induction ks) auto

lemma same_key_snoc:
  "same_key rt (cs @ [c]) h = same_key rt cs h @ (if weld_key rt c = h then [c] else [])"
  by (simp add: same_key_def)

lemma same_key_nonempty:
  "h \<in> set (map (weld_key rt) cs) \<Longrightarrow> same_key rt cs h \<noteq> []"
  by (auto simp: same_key_def filter_empty_conv)

lemma collect_snoc:
  "xs \<noteq> [] \<Longrightarrow>
     collect (xs @ [c]) =
       (collect xs)\<lparr>b_colours := b_colours (collect xs) @ [ci_colour c],
                    b_normals := b_normals (collect xs) @ [ci_normal c],
                    b_faces := b_faces (collect xs) @ [ci_slot c]\<rparr>"
  by (simp add: collect_def)

lemma collect_single:
  "collect [c] = \<lparr>b_vertex = ci_vertex c, b_colours = [ci_colour c],
                  b_normals = [ci_normal c], b_faces = [ci_slot c]\<rparr>"
  by (simp add: collect_def)

lemma insert_corner_group:
  "insert_corner rt (group_by_key rt cs) c = group_by_key rt (cs @ [c])"
proof (cases "weld_key rt c \<in> set (map (weld_key rt) cs)")
  case True
  let ?k = "weld_key rt c"
  let ?ks = "first_occurrences (map (weld_key rt) cs)"
  have mem: "?k \<in> set ?ks"
    using True by (simp add: set_first_occurrences)
  have ne: "same_key rt cs ?k \<noteq> []"
    using True by (rule same_key_nonempty)
  have look: "map_of (group_by_key rt cs) ?k = Some (collect (same_key rt cs ?k))"
    using mem by (simp add: group_by_key_def map_of_keyed)
  have keys: "first_occurrences (map (weld_key rt) (cs @ [c])) = ?ks"
    using True by (simp add: first_occurrences_snoc)
  have "insert_corner rt (group_by_key rt cs) c =
        AList.update ?k (collect (same_key rt cs ?k @ [c])) (group_by_key rt cs)"
    by (simp add: insert_corner_def look collect_snoc [OF ne])
  also have "\<dots> = map (\<lambda>h. (h, if h = ?k then collect (same_key rt cs ?k @ [c])
                                 else collect (same_key rt cs h))) ?ks"
    unfolding group_by_key_def using mem distinct_first_occurrences by (rule update_keyed)
  also have "\<dots> = map (\<lambda>h. (h, collect (same_key rt (cs @ [c]) h))) ?ks"
    by (intro map_cong refl) (auto simp: same_key_snoc)
  also have "\<dots> = group_by_key rt (cs @ [c])"
    by (simp only: group_by_key_def keys)
  finally show ?thesis .
next
  case False
  let ?k = "weld_key rt c"
  let ?ks = "first_occurrences (map (weld_key rt) cs)"
  have nmem: "?k \<notin> set ?ks"
    using False by (simp add: set_first_occurrences)
  have look: "map_of (group_by_key rt cs) ?k = None"
    using nmem by (simp add: group_by_key_def map_of_keyed)
  have keys: "first_occurrences (map (weld_key rt) cs @ [?k]) = ?ks @ [?k]"
    using False by (simp add: first_occurrences_snoc)
  have none: "same_key rt cs ?k = []"
  proof -
    have "weld_key rt x \<noteq> ?k" if "x \<in> set cs" for x
      using that False by (metis image_eqI set_map)
    then show ?thesis
      by (simp add: same_key_def filter_empty_conv)
  qed
  have g: "group_by_key rt cs = map (\<lambda>h. (h, collect (same_key rt (cs @ [c]) h))) ?ks"
    unfolding group_by_key_def using nmem by (intro map_cong refl) (auto simp: same_key_snoc)
  have "insert_corner rt (group_by_key rt cs) c = group_by_key rt cs @ [(?k, collect [c])]"
    by (simp add: insert_corner_def look collect_single)
  also have "\<dots> = map (\<lambda>h. (h, collect (same_key rt (cs @ [c]) h))) ?ks @ [(?k, collect [c])]"
    using g by simp
  also have "\<dots> = group_by_key rt (cs @ [c])"
    by (simp add: group_by_key_def keys same_key_snoc none)
  finally show ?thesis .
qed

lemma foldl_insert_corner:
  "foldl (insert_corner rt) (group_by_key rt cs0) cs = group_by_key rt (cs0 @ cs)"
proof (induction cs arbitrary: cs0)
  case Nil
  show ?case by simp
next
  case (Cons c cs)
  have "foldl (insert_corner rt) (group_by_key rt cs0) (c # cs) =
        foldl (insert_corner rt) (group_by_key rt (cs0 @ [c])) cs"
    by (simp only: foldl_Cons insert_corner_group)
  also have "\<dots> = group_by_key rt ((cs0 @ [c]) @ cs)"
    by (rule Cons.IH)
  finally show ?case by simp
qed

lemma build_buckets_vertexMap:
  "vertexMap (build_buckets rt geometry) = group_by_key rt (corner_instances geometry)"
proof -
  have e: "group_by_key rt [] = []"
    by (simp add: group_by_key_def first_occurrences_def)
  show ?thesis
    using foldl_insert_corner [of rt "[]" "corner_instances geometry"]
    by (simp add: build_buckets_eq e)
qed

lemma build_buckets_faces:
  "faces (build_buckets rt geometry) = replicate (triangle_count geometry) [0, 0, 0]"
  by (simp add: build_buckets_eq)

lemma build_buckets_colorsUsed:
  "colorsUsed (build_buckets rt geometry) = (\<exists>p \<in> set geometry. shared_color p \<noteq> None)"
  by (simp add: build_buckets_eq)

lemma build_buckets_arrays:
  "vertices (build_buckets rt geometry) = []"
  "normalVecs (build_buckets rt geometry) = []"
  "colors (build_buckets rt geometry) = []"
  by (simp_all add: build_buckets_eq initial_state_def)

section \<open>Resolution as the emission of one vertex per corner instance\<close>

lemma write_slots_append:
  "write_slots fs c (ss @ ts) = write_slots (write_slots fs c ss) (c + length ss) ts"
  by (induction ss arbitrary: fs c) simp_all

lemma length_concat_xyz: "length (concat (map (\<lambda>e. xyz (f e)) es)) = 3 * length es"
  by (induction es) (simp_all add: xyz_def)

lemma length_concat_rgb: "length (concat (map (\<lambda>e. rgb_list (f e)) es)) = 3 * length es"
  by (induction es) (simp_all add: rgb_list_def)

lemma apply_emission_Nil: "apply_emission st [] = st"
  by (simp add: apply_emission_def)

lemma apply_emission_append:
  "apply_emission (apply_emission st es) fs = apply_emission st (es @ fs)"
proof -
  have "(length (vertices st) + 3 * length es) div 3 = length (vertices st) div 3 + length es"
    by simp
  then show ?thesis
    by (simp add: apply_emission_def write_slots_append length_concat_xyz add.commute)
qed

lemma emit_corner_apply:
  "emit_corner v n cols fcs st j =
     apply_emission st [\<lparr>e_position = v, e_normal = n, e_colour = cols ! j, e_slot = fcs ! j\<rparr>]"
  by (simp add: emit_corner_def apply_emission_def Let_def xyz_def rgb_list_def
      split: prod.split)

lemma foldl_apply_emission:
  assumes "\<And>st x. step st x = apply_emission st (f x)"
  shows "foldl step st xs = apply_emission st (concat (map f xs))"
proof (induction xs arbitrary: st)
  case Nil
  show ?case by (simp add: apply_emission_Nil)
next
  case (Cons x xs)
  have "foldl step st (x # xs) = foldl step (apply_emission st (f x)) xs"
    by (simp only: foldl_Cons assms)
  also have "\<dots> = apply_emission (apply_emission st (f x)) (concat (map f xs))"
    by (rule Cons.IH)
  also have "\<dots> = apply_emission st (concat (map f (x # xs)))"
    by (simp add: apply_emission_append)
  finally show ?case .
qed

lemma resolve_group_apply:
  "resolve_group rt b st g = apply_emission st (group_emission rt b g)"
proof -
  let ?n = "average_normal rt (b_normals b) g"
  let ?f = "\<lambda>j. [\<lparr>e_position = b_vertex b, e_normal = ?n, e_colour = b_colours b ! j,
                  e_slot = b_faces b ! j\<rparr>]"
  have "resolve_group rt b st g = foldl (emit_corner (b_vertex b) ?n (b_colours b) (b_faces b)) st g"
    by (simp add: resolve_group_def Let_def)
  also have "\<dots> = apply_emission st (concat (map ?f g))"
    by (rule foldl_apply_emission) (rule emit_corner_apply)
  also have "concat (map ?f g) = group_emission rt b g"
    by (simp add: group_emission_def concat_map_singleton)
  finally show ?thesis .
qed

lemma resolve_bucket_apply:
  "resolve_bucket rt a st b = apply_emission st (bucket_emission rt a b)"
  unfolding resolve_bucket_def bucket_emission_def
  by (rule foldl_apply_emission) (rule resolve_group_apply)

lemma resolve_buckets_apply:
  "resolve_buckets rt a st = apply_emission st (emission rt a (vertexMap st))"
proof -
  have "foldl (resolve_bucket rt a) st (map snd (vertexMap st)) =
        apply_emission st (concat (map (bucket_emission rt a) (map snd (vertexMap st))))"
    by (rule foldl_apply_emission) (rule resolve_bucket_apply)
  then show ?thesis
    by (simp add: resolve_buckets_def emission_def o_def)
qed

lemma export_eq:
  "export_buffers rt geometry a =
     \<lparr>position = map (float32 rt) (concat (map (\<lambda>e. xyz (e_position e)) (export_emission rt geometry a))),
      normal = map (float32 rt) (concat (map (\<lambda>e. xyz (e_normal e)) (export_emission rt geometry a))),
      color = (if \<exists>p \<in> set geometry. shared_color p \<noteq> None
               then Some (map (float32 rt)
                            (concat (map (\<lambda>e. rgb_list (e_colour e)) (export_emission rt geometry a))))
               else None),
      index = flatten_faces (write_slots (replicate (triangle_count geometry) [0, 0, 0]) 0
                (map e_slot (export_emission rt geometry a)))\<rparr>"
  by (simp add: export_buffers_def Let_def resolve_buckets_apply apply_emission_def
      export_emission_def build_buckets_faces build_buckets_colorsUsed build_buckets_arrays)

section \<open>Slots and the index buffer\<close>

lemma write_slots_length: "length (write_slots fs c ss) = length fs"
  by (induction ss arbitrary: fs c) simp_all

lemma write_step_other:
  "s \<noteq> s' \<Longrightarrow>
     fs[fst s' := (fs ! fst s')[snd s' := c]] ! fst s ! snd s = fs ! fst s ! snd s"
  by (cases "fst s = fst s'"; cases "fst s' < length fs")
     (auto simp: prod_eq_iff nth_list_update list_update_beyond not_less)

lemma write_step_same:
  "fst s < length fs \<Longrightarrow> snd s < length (fs ! fst s) \<Longrightarrow>
     fs[fst s := (fs ! fst s)[snd s := c]] ! fst s ! snd s = c"
  by simp

lemma write_step_face_length:
  "length (fs[f := (fs ! f)[k := c]] ! t) = length (fs ! t)"
  by (cases "t = f"; cases "f < length fs")
     (auto simp: nth_list_update list_update_beyond not_less)

lemma write_slots_other:
  "s \<notin> set ss \<Longrightarrow> write_slots fs c ss ! fst s ! snd s = fs ! fst s ! snd s"
proof (induction ss arbitrary: fs c)
  case Nil
  show ?case by simp
next
  case (Cons s' ss)
  then have "s \<noteq> s'" and "s \<notin> set ss" by auto
  then show ?case
    by (simp add: Cons.IH write_step_other)
qed

lemma write_slots_nth:
  assumes "distinct ss" and "i < length ss"
    and "\<forall>s \<in> set ss. fst s < length fs \<and> snd s < length (fs ! fst s)"
  shows "write_slots fs c ss ! fst (ss ! i) ! snd (ss ! i) = c + i"
  using assms
proof (induction ss arbitrary: fs c i)
  case Nil
  then show ?case by simp
next
  case (Cons s ss)
  let ?fs = "fs[fst s := (fs ! fst s)[snd s := c]]"
  show ?case
  proof (cases i)
    case 0
    have "s \<notin> set ss" using Cons.prems(1) by simp
    then have "write_slots ?fs (Suc c) ss ! fst s ! snd s = ?fs ! fst s ! snd s"
      by (rule write_slots_other)
    also have "\<dots> = c"
      using Cons.prems(3) by (intro write_step_same) simp_all
    finally show ?thesis using 0 by simp
  next
    case (Suc i')
    have r: "\<forall>t \<in> set ss. fst t < length ?fs \<and> snd t < length (?fs ! fst t)"
      using Cons.prems(3) by (simp add: write_step_face_length)
    have "write_slots ?fs (Suc c) ss ! fst (ss ! i') ! snd (ss ! i') = Suc c + i'"
      using Cons.prems(1,2) Suc by (intro Cons.IH r) simp_all
    then show ?thesis using Suc by simp
  qed
qed

lemma flatten_faces_length: "length (flatten_faces fs) = 3 * length fs"
  by (induction fs) (simp_all add: flatten_faces_def)

lemma flatten_faces_nth:
  "t < length fs \<Longrightarrow> k < 3 \<Longrightarrow> flatten_faces fs ! (3 * t + k) = fs ! t ! k"
proof (induction fs arbitrary: t)
  case Nil
  then show ?case by simp
next
  case (Cons f fs)
  have split: "flatten_faces (f # fs) = [f ! 0, f ! 1, f ! 2] @ flatten_faces fs"
    by (simp add: flatten_faces_def)
  show ?case
  proof (cases t)
    case 0
    from Cons.prems(2) have "k = 0 \<or> k = 1 \<or> k = 2" by arith
    then show ?thesis using 0 by (auto simp: split)
  next
    case (Suc t')
    have "flatten_faces (f # fs) ! (3 * t + k) = flatten_faces fs ! (3 * t' + k)"
      unfolding split using Suc by (simp add: nth_append)
    also have "\<dots> = fs ! t' ! k"
      using Cons.prems Suc by (intro Cons.IH) simp_all
    finally show ?thesis using Suc by simp
  qed
qed

text \<open>The slots of all corner instances, triangle by triangle.\<close>

lemma triangle_slots:
  "map ci_slot (triangle_corners p face x) = [(face, 0), (face, 1), (face, 2)]"
  by (simp add: triangle_corners_def)

lemma polygon_slots:
  "map ci_slot (polygon_corners p face0) =
     concat (map (\<lambda>t. [(t, 0), (t, 1), (t, 2)]) [face0..<face0 + fan_size p])"
proof -
  have "map ci_slot (polygon_corners p face0) =
        concat (map (\<lambda>x. [(face0 + x, 0), (face0 + x, 1), (face0 + x, 2)]) [0..<fan_size p])"
    by (simp add: polygon_corners_def map_concat o_def triangle_slots)
  also have "\<dots> = concat (map (\<lambda>t. [(t, 0), (t, 1), (t, 2)]) (map (\<lambda>x. face0 + x) [0..<fan_size p]))"
    by (simp add: o_def)
  also have "map (\<lambda>x. face0 + x) [0..<fan_size p] = [face0..<face0 + fan_size p]"
    by (simp add: map_add_upt add.commute)
  finally show ?thesis .
qed

lemma mesh_slots:
  "map ci_slot (mesh_corners face0 ps) =
     concat (map (\<lambda>t. [(t, 0), (t, 1), (t, 2)]) [face0..<face0 + triangle_count ps])"
proof (induction ps arbitrary: face0)
  case Nil
  show ?case by (simp add: triangle_count_def)
next
  case (Cons p ps)
  have tc: "triangle_count (p # ps) = fan_size p + triangle_count ps"
    by (simp add: triangle_count_def)
  have "[face0..<face0 + fan_size p + triangle_count ps] =
        [face0..<face0 + fan_size p] @ [face0 + fan_size p..<face0 + fan_size p + triangle_count ps]"
    by (rule upt_add_eq_append) simp
  then have "[face0..<face0 + triangle_count (p # ps)] =
        [face0..<face0 + fan_size p] @ [face0 + fan_size p..<face0 + fan_size p + triangle_count ps]"
    by (simp only: tc add.assoc)
  then show ?case
    by (simp only: mesh_corners.simps map_append Cons.IH polygon_slots concat_append)
qed

lemma corner_slots:
  "map ci_slot (corner_instances geometry) =
     concat (map (\<lambda>t. [(t, 0), (t, 1), (t, 2)]) [0..<triangle_count geometry])"
  using mesh_slots [of 0 geometry] by (simp add: corner_instances_def)

lemma slots_distinct_from: "distinct (concat (map (\<lambda>t. [(t, 0::nat), (t, 1), (t, 2)]) [a..<b]))"
  by (induction b) auto

section \<open>Every corner instance is emitted exactly once\<close>

lemma filter_disjoint_mset:
  "(\<And>x. \<not> (P x \<and> Q x)) \<Longrightarrow>
     mset (filter P xs) + mset (filter Q xs) = mset (filter (\<lambda>x. P x \<or> Q x) xs)"
  by (induction xs) auto

lemma partition_by_keys:
  "distinct ks \<Longrightarrow>
     mset (concat (map (\<lambda>h. filter (\<lambda>c. key c = h) cs) ks)) =
     mset (filter (\<lambda>c. key c \<in> set ks) cs)"
proof (induction ks)
  case Nil
  show ?case by simp
next
  case (Cons k ks)
  then have "k \<notin> set ks" and "distinct ks" by simp_all
  have "mset (concat (map (\<lambda>h. filter (\<lambda>c. key c = h) cs) (k # ks))) =
        mset (filter (\<lambda>c. key c = k) cs) + mset (filter (\<lambda>c. key c \<in> set ks) cs)"
    using Cons.IH [OF \<open>distinct ks\<close>] by simp
  also have "\<dots> = mset (filter (\<lambda>c. key c = k \<or> key c \<in> set ks) cs)"
    using \<open>k \<notin> set ks\<close> by (intro filter_disjoint_mset) auto
  also have "\<dots> = mset (filter (\<lambda>c. key c \<in> set (k # ks)) cs)"
    by simp
  finally show ?case .
qed

lemma buckets_partition:
  "mset (concat (map (same_key rt cs) (first_occurrences (map (weld_key rt) cs)))) = mset cs"
proof -
  have "mset (concat (map (\<lambda>h. filter (\<lambda>c. weld_key rt c = h) cs)
                       (first_occurrences (map (weld_key rt) cs)))) =
        mset (filter (\<lambda>c. weld_key rt c \<in> set (first_occurrences (map (weld_key rt) cs))) cs)"
    by (rule partition_by_keys) (rule distinct_first_occurrences)
  also have "filter (\<lambda>c. weld_key rt c \<in> set (first_occurrences (map (weld_key rt) cs))) cs = cs"
    by (rule filter_True) (simp add: set_first_occurrences)
  finally show ?thesis
    by (simp add: same_key_def [abs_def])
qed

lemma group_normals_mset:
  "mset (concat (group_normals rt a normals)) = mset [0..<length normals]"
  by (simp only: group_normals_greedy greedy_groups_mset)

lemma group_normals_member:
  assumes "g \<in> set (group_normals rt a normals)" and "j \<in> set g"
  shows "j < length normals"
proof -
  have "j \<in> set (concat (group_normals rt a normals))"
    using assms by auto
  then have "j \<in># mset (concat (group_normals rt a normals))"
    by simp
  then have "j \<in># mset [0..<length normals]"
    by (simp only: group_normals_mset)
  then show ?thesis by simp
qed

lemma collect_fields:
  "b_normals (collect cs) = map ci_normal cs"
  "b_colours (collect cs) = map ci_colour cs"
  "b_faces (collect cs) = map ci_slot cs"
  "b_vertex (collect cs) = ci_vertex (hd cs)"
  by (simp_all add: collect_def)

lemma bucket_emission_slots:
  "map e_slot (bucket_emission rt a b) =
     map (\<lambda>j. b_faces b ! j) (concat (group_normals rt a (b_normals b)))"
  by (simp add: bucket_emission_def group_emission_def map_concat o_def)

lemma bucket_slots_mset:
  "mset (map e_slot (bucket_emission rt a (collect bc))) = mset (map ci_slot bc)"
proof -
  let ?js = "concat (group_normals rt a (map ci_normal bc))"
  have "mset (map e_slot (bucket_emission rt a (collect bc))) =
        image_mset (\<lambda>j. map ci_slot bc ! j) (mset ?js)"
    by (simp add: bucket_emission_slots collect_fields)
  also have "mset ?js = mset [0..<length (map ci_slot bc)]"
    by (simp add: group_normals_mset)
  also have "image_mset (\<lambda>j. map ci_slot bc ! j) (mset [0..<length (map ci_slot bc)]) =
             mset (map (\<lambda>j. map ci_slot bc ! j) [0..<length (map ci_slot bc)])"
    by simp
  also have "\<dots> = mset (map ci_slot bc)"
    by (simp only: map_nth)
  finally show ?thesis .
qed

lemma mset_concat_cong:
  "(\<And>x. x \<in> set xs \<Longrightarrow> mset (f x) = mset (g x)) \<Longrightarrow>
     mset (concat (map f xs)) = mset (concat (map g xs))"
  by (induction xs) simp_all

lemma emission_group_by_key:
  "emission rt a (group_by_key rt cs) =
     concat (map (\<lambda>h. bucket_emission rt a (collect (same_key rt cs h)))
               (first_occurrences (map (weld_key rt) cs)))"
  by (simp add: emission_def group_by_key_def o_def)

lemma export_emission_eq:
  "export_emission rt geometry a =
     concat (map (\<lambda>h. bucket_emission rt a (collect (same_key rt (corner_instances geometry) h)))
               (first_occurrences (map (weld_key rt) (corner_instances geometry))))"
  by (simp only: export_emission_def build_buckets_vertexMap emission_group_by_key)

lemma emission_slots_mset:
  "mset (map e_slot (export_emission rt geometry a)) =
     mset (map ci_slot (corner_instances geometry))"
proof -
  let ?cs = "corner_instances geometry"
  let ?ks = "first_occurrences (map (weld_key rt) ?cs)"
  have "map e_slot (export_emission rt geometry a) =
        concat (map (\<lambda>h. map e_slot (bucket_emission rt a (collect (same_key rt ?cs h)))) ?ks)"
    by (simp add: export_emission_eq map_concat o_def)
  then have "mset (map e_slot (export_emission rt geometry a)) =
        mset (concat (map (\<lambda>h. map e_slot (bucket_emission rt a (collect (same_key rt ?cs h)))) ?ks))"
    by simp
  also have "\<dots> = mset (concat (map (\<lambda>h. map ci_slot (same_key rt ?cs h)) ?ks))"
    by (rule mset_concat_cong) (rule bucket_slots_mset)
  also have "\<dots> = image_mset ci_slot (mset (concat (map (same_key rt ?cs) ?ks)))"
    by (simp add: map_concat o_def flip: mset_map)
  also have "\<dots> = mset (map ci_slot ?cs)"
    by (simp add: buckets_partition)
  finally show ?thesis .
qed

lemma emission_length:
  "length (export_emission rt geometry a) = 3 * triangle_count geometry"
proof -
  have "length (export_emission rt geometry a) = size (mset (map e_slot (export_emission rt geometry a)))"
    by simp
  also have "\<dots> = length (map ci_slot (corner_instances geometry))"
    by (simp only: emission_slots_mset size_mset)
  also have "\<dots> = 3 * triangle_count geometry"
    by (simp only: corner_slots) (simp add: length_concat o_def sum_list_triv)
  finally show ?thesis .
qed

lemma emission_slots_distinct:
  "distinct (map e_slot (export_emission rt geometry a))"
proof -
  have "distinct (map ci_slot (corner_instances geometry))"
    by (simp only: corner_slots slots_distinct_from)
  then show ?thesis
    using emission_slots_mset [of rt geometry a] by (metis mset_eq_imp_distinct_iff)
qed

lemma emission_slots_range:
  assumes "s \<in> set (map e_slot (export_emission rt geometry a))"
  shows "fst s < triangle_count geometry \<and> snd s < 3"
proof -
  have "s \<in> set (map ci_slot (corner_instances geometry))"
    using assms emission_slots_mset [of rt geometry a] by (metis mset_eq_setD)
  then show ?thesis
    by (auto simp: corner_slots)
qed

section \<open>The output buffers\<close>

lemma triple_concat:
  assumes "\<And>e. length (f e) = 3" and "i < length es"
  shows "triple (map g (concat (map f es))) i = map g (f (es ! i))"
  using assms(2)
proof (induction es arbitrary: i)
  case Nil
  then show ?case by simp
next
  case (Cons e es)
  show ?case
  proof (cases i)
    case 0
    then show ?thesis by (simp add: triple_def assms(1))
  next
    case (Suc i')
    then have "i' < length es" using Cons.prems by simp
    then have "triple (map g (concat (map f es))) i' = map g (f (es ! i'))"
      by (rule Cons.IH)
    moreover have "drop (3 * i) (map g (f e) @ map g (concat (map f es))) =
                   drop (3 * i') (map g (concat (map f es)))"
      using Suc by (simp add: assms(1))
    ultimately show ?thesis
      using Suc by (simp add: triple_def)
  qed
qed

lemma export_position_triple:
  assumes "i < length (export_emission rt geometry a)"
  shows "triple (position (export_buffers rt geometry a)) i =
           map (float32 rt) (xyz (e_position (export_emission rt geometry a ! i)))"
  unfolding export_eq using assms by (simp add: triple_concat xyz_def)

lemma export_normal_triple:
  assumes "i < length (export_emission rt geometry a)"
  shows "triple (normal (export_buffers rt geometry a)) i =
           map (float32 rt) (xyz (e_normal (export_emission rt geometry a ! i)))"
  unfolding export_eq using assms by (simp add: triple_concat xyz_def)

lemma export_color_triple:
  assumes "i < length (export_emission rt geometry a)"
    and "color (export_buffers rt geometry a) = Some cols"
  shows "triple cols i =
           map (float32 rt) (rgb_list (e_colour (export_emission rt geometry a ! i)))"
proof -
  have "cols = map (float32 rt) (concat (map (\<lambda>e. rgb_list (e_colour e)) (export_emission rt geometry a)))"
    using assms(2) unfolding export_eq by (simp split: if_splits)
  then show ?thesis
    using assms(1) by (simp add: triple_concat rgb_list_def)
qed

lemma export_lengths:
  "length (position (export_buffers rt geometry a)) = 9 * triangle_count geometry"
  "length (normal (export_buffers rt geometry a)) = 9 * triangle_count geometry"
  "length (index (export_buffers rt geometry a)) = 3 * triangle_count geometry"
  "vertex_count (export_buffers rt geometry a) = 3 * triangle_count geometry"
  by (simp_all add: vertex_count_def export_eq length_concat_xyz emission_length
      flatten_faces_length write_slots_length)

lemma export_slot_vertex:
  assumes "i < length (export_emission rt geometry a)"
  shows "slot_vertex (export_buffers rt geometry a) (e_slot (export_emission rt geometry a ! i)) = i"
proof -
  let ?E = "export_emission rt geometry a"
  let ?fs = "replicate (triangle_count geometry) [0, 0, 0::nat]"
  let ?s = "e_slot (?E ! i)"
  have mem: "?s \<in> set (map e_slot ?E)"
    using assms by simp
  have rng: "fst ?s < triangle_count geometry" "snd ?s < 3"
    using emission_slots_range [OF mem] by simp_all
  have inr: "\<forall>s \<in> set (map e_slot ?E). fst s < length ?fs \<and> snd s < length (?fs ! fst s)"
  proof
    fix s assume "s \<in> set (map e_slot ?E)"
    then have "fst s < triangle_count geometry \<and> snd s < 3"
      by (rule emission_slots_range)
    then show "fst s < length ?fs \<and> snd s < length (?fs ! fst s)"
      by simp
  qed
  have "write_slots ?fs 0 (map e_slot ?E) ! fst (map e_slot ?E ! i) ! snd (map e_slot ?E ! i) = 0 + i"
    using emission_slots_distinct _ inr by (rule write_slots_nth) (simp add: assms)
  then have w: "write_slots ?fs 0 (map e_slot ?E) ! fst ?s ! snd ?s = i"
    using assms by simp
  have "slot_vertex (export_buffers rt geometry a) ?s =
        flatten_faces (write_slots ?fs 0 (map e_slot ?E)) ! (3 * fst ?s + snd ?s)"
    by (simp add: slot_vertex_def export_eq)
  also have "\<dots> = write_slots ?fs 0 (map e_slot ?E) ! fst ?s ! snd ?s"
    using rng by (intro flatten_faces_nth) (simp_all add: write_slots_length)
  finally show ?thesis using w by simp
qed

text \<open>Where an emitted vertex comes from.\<close>

lemma bucket_emission_member:
  assumes "e \<in> set (bucket_emission rt a (collect bc))"
  shows "\<exists>g \<in> set (group_normals rt a (map ci_normal bc)). \<exists>j \<in> set g. j < length bc \<and>
           e = \<lparr>e_position = ci_vertex (hd bc),
                e_normal = average_normal rt (map ci_normal bc) g,
                e_colour = ci_colour (bc ! j), e_slot = ci_slot (bc ! j)\<rparr>"
proof -
  from assms obtain g j where g: "g \<in> set (group_normals rt a (map ci_normal bc))"
    and j: "j \<in> set g"
    and e: "e = \<lparr>e_position = ci_vertex (hd bc),
                e_normal = average_normal rt (map ci_normal bc) g,
                e_colour = map ci_colour bc ! j, e_slot = map ci_slot bc ! j\<rparr>"
    by (auto simp: bucket_emission_def group_emission_def collect_fields)
  have "j < length bc"
    using group_normals_member [OF g j] by simp
  with g j e show ?thesis by auto
qed

lemma same_key_member:
  "c \<in> set (same_key rt cs h) \<longleftrightarrow> c \<in> set cs \<and> weld_key rt c = h"
  by (auto simp: same_key_def)

lemma same_key_hd:
  assumes "same_key rt cs h \<noteq> []"
  shows "hd (same_key rt cs h) \<in> set cs \<and> weld_key rt (hd (same_key rt cs h)) = h"
  using hd_in_set [OF assms] by (simp only: same_key_member)

lemma corner_slots_inj:
  assumes "c \<in> set (corner_instances geometry)" and "c' \<in> set (corner_instances geometry)"
    and "ci_slot c = ci_slot c'"
  shows "c = c'"
proof -
  have "distinct (map ci_slot (corner_instances geometry))"
    by (simp only: corner_slots slots_distinct_from)
  then have "inj_on ci_slot (set (corner_instances geometry))"
    by (simp add: distinct_map)
  then show ?thesis
    using assms by (auto dest: inj_onD)
qed

lemma export_emission_member:
  assumes "e \<in> set (export_emission rt geometry a)"
  shows "\<exists>h \<in> set (map (weld_key rt) (corner_instances geometry)).
         \<exists>g \<in> set (group_normals rt a (map ci_normal (same_key rt (corner_instances geometry) h))).
         \<exists>j \<in> set g. j < length (same_key rt (corner_instances geometry) h) \<and>
           e = \<lparr>e_position = ci_vertex (hd (same_key rt (corner_instances geometry) h)),
                e_normal = average_normal rt
                             (map ci_normal (same_key rt (corner_instances geometry) h)) g,
                e_colour = ci_colour (same_key rt (corner_instances geometry) h ! j),
                e_slot = ci_slot (same_key rt (corner_instances geometry) h ! j)\<rparr>"
proof -
  let ?cs = "corner_instances geometry"
  from assms obtain h where h: "h \<in> set (first_occurrences (map (weld_key rt) ?cs))"
    and e: "e \<in> set (bucket_emission rt a (collect (same_key rt ?cs h)))"
    by (auto simp: export_emission_eq)
  from h have "h \<in> set (map (weld_key rt) ?cs)"
    by (simp only: set_first_occurrences)
  with bucket_emission_member [OF e] show ?thesis
    by blast
qed

lemma export_emission_intro:
  assumes "h \<in> set (map (weld_key rt) (corner_instances geometry))"
    and "g \<in> set (group_normals rt a (map ci_normal (same_key rt (corner_instances geometry) h)))"
    and "j \<in> set g"
  shows "\<lparr>e_position = ci_vertex (hd (same_key rt (corner_instances geometry) h)),
          e_normal = average_normal rt
                       (map ci_normal (same_key rt (corner_instances geometry) h)) g,
          e_colour = ci_colour (same_key rt (corner_instances geometry) h ! j),
          e_slot = ci_slot (same_key rt (corner_instances geometry) h ! j)\<rparr>
         \<in> set (export_emission rt geometry a)"
proof -
  let ?cs = "corner_instances geometry"
  have jl: "j < length (same_key rt ?cs h)"
    using group_normals_member [OF assms(2,3)] by simp
  have "h \<in> set (first_occurrences (map (weld_key rt) ?cs))"
    using assms(1) by (simp only: set_first_occurrences)
  moreover have "\<lparr>e_position = ci_vertex (hd (same_key rt ?cs h)),
          e_normal = average_normal rt (map ci_normal (same_key rt ?cs h)) g,
          e_colour = ci_colour (same_key rt ?cs h ! j),
          e_slot = ci_slot (same_key rt ?cs h ! j)\<rparr>
        \<in> set (bucket_emission rt a (collect (same_key rt ?cs h)))"
    using assms(2,3) jl
    by (force simp: bucket_emission_def group_emission_def collect_fields)
  ultimately show ?thesis
    by (auto simp: export_emission_eq)
qed

lemma corner_emitted:
  assumes "c \<in> set (corner_instances geometry)"
  shows "\<exists>i < length (export_emission rt geometry a).
         \<exists>g \<in> set (group_normals rt a
                      (map ci_normal (same_key rt (corner_instances geometry) (weld_key rt c)))).
         \<exists>j \<in> set g.
           j < length (same_key rt (corner_instances geometry) (weld_key rt c)) \<and>
           same_key rt (corner_instances geometry) (weld_key rt c) ! j = c \<and>
           export_emission rt geometry a ! i =
             \<lparr>e_position = ci_vertex (hd (same_key rt (corner_instances geometry) (weld_key rt c))),
              e_normal = average_normal rt
                (map ci_normal (same_key rt (corner_instances geometry) (weld_key rt c))) g,
              e_colour = ci_colour c, e_slot = ci_slot c\<rparr>"
proof -
  let ?cs = "corner_instances geometry"
  let ?E = "export_emission rt geometry a"
  have "ci_slot c \<in> set (map ci_slot ?cs)"
    using assms by simp
  then have "ci_slot c \<in> set (map e_slot ?E)"
    using emission_slots_mset [of rt geometry a] by (metis mset_eq_setD)
  then obtain i where i: "i < length ?E" and s: "e_slot (?E ! i) = ci_slot c"
    by (auto simp: in_set_conv_nth)
  from i have "?E ! i \<in> set ?E" by simp
  from export_emission_member [OF this]
  obtain h g j where g: "g \<in> set (group_normals rt a (map ci_normal (same_key rt ?cs h)))"
    and j: "j \<in> set g" and jl: "j < length (same_key rt ?cs h)"
    and e: "?E ! i = \<lparr>e_position = ci_vertex (hd (same_key rt ?cs h)),
                e_normal = average_normal rt (map ci_normal (same_key rt ?cs h)) g,
                e_colour = ci_colour (same_key rt ?cs h ! j),
                e_slot = ci_slot (same_key rt ?cs h ! j)\<rparr>"
    by blast
  let ?c' = "same_key rt ?cs h ! j"
  have "?c' \<in> set (same_key rt ?cs h)"
    using jl by simp
  then have c': "?c' \<in> set ?cs" and k: "weld_key rt ?c' = h"
    by (simp_all only: same_key_member)
  have "ci_slot ?c' = ci_slot c"
    using s e by simp
  then have eq: "?c' = c"
    using c' assms by (intro corner_slots_inj)
  then have h: "h = weld_key rt c"
    using k by simp
  show ?thesis
    using i g j jl e eq unfolding h by (intro exI [of _ i] conjI bexI [of _ g] bexI [of _ j]) simp_all
qed

lemma export_index_set:
  "set (index (export_buffers rt geometry a)) = {0..<3 * triangle_count geometry} \<and>
   distinct (index (export_buffers rt geometry a))"
proof -
  let ?out = "export_buffers rt geometry a"
  let ?E = "export_emission rt geometry a"
  let ?n = "3 * triangle_count geometry"
  have len: "length (index ?out) = ?n"
    by (rule export_lengths)
  have sub: "{0..<?n} \<subseteq> set (index ?out)"
  proof
    fix i assume "i \<in> {0..<?n}"
    then have i: "i < length ?E" by (simp add: emission_length)
    let ?s = "e_slot (?E ! i)"
    have "?s \<in> set (map e_slot ?E)" using i by simp
    then have rng: "fst ?s < triangle_count geometry \<and> snd ?s < 3"
      by (rule emission_slots_range)
    then have "3 * fst ?s + snd ?s < length (index ?out)"
      unfolding len by arith
    then have "index ?out ! (3 * fst ?s + snd ?s) \<in> set (index ?out)"
      by (rule nth_mem)
    then show "i \<in> set (index ?out)"
      using export_slot_vertex [OF i] by (simp add: slot_vertex_def)
  qed
  have "card (set (index ?out)) \<le> length (index ?out)"
    by (rule card_length)
  moreover have "card {0..<?n} \<le> card (set (index ?out))"
    using sub by (intro card_mono) simp_all
  ultimately have card: "card (set (index ?out)) = length (index ?out)"
    using len by simp
  then have d: "distinct (index ?out)"
    by (rule card_distinct)
  have "{0..<?n} = set (index ?out)"
    using sub card len by (intro card_subset_eq) simp_all
  with d show ?thesis by simp
qed

lemma vertexMap_member:
  assumes "hb \<in> set (vertexMap (build_buckets rt geometry))"
  shows "fst hb \<in> set (map (weld_key rt) (corner_instances geometry)) \<and>
         snd hb = collect (same_key rt (corner_instances geometry) (fst hb))"
  using assms
  by (auto simp: build_buckets_vertexMap group_by_key_def set_first_occurrences)

lemma group_member_vertex:
  assumes "hb \<in> set (vertexMap (build_buckets rt geometry))"
    and "g \<in> set (group_normals rt a (b_normals (snd hb)))"
    and "j \<in> set g"
  shows "\<exists>i < length (export_emission rt geometry a).
           slot_vertex (export_buffers rt geometry a) (b_faces (snd hb) ! j) = i \<and>
           export_emission rt geometry a ! i =
             \<lparr>e_position = b_vertex (snd hb),
              e_normal = average_normal rt (b_normals (snd hb)) g,
              e_colour = b_colours (snd hb) ! j, e_slot = b_faces (snd hb) ! j\<rparr>"
proof -
  let ?cs = "corner_instances geometry"
  let ?E = "export_emission rt geometry a"
  let ?bc = "same_key rt ?cs (fst hb)"
  have h: "fst hb \<in> set (map (weld_key rt) ?cs)" and b: "snd hb = collect ?bc"
    using vertexMap_member [OF assms(1)] by simp_all
  have g: "g \<in> set (group_normals rt a (map ci_normal ?bc))"
    using assms(2) by (simp add: b collect_fields)
  have jl: "j < length ?bc"
    using group_normals_member [OF g assms(3)] by simp
  let ?e = "\<lparr>e_position = ci_vertex (hd ?bc), e_normal = average_normal rt (map ci_normal ?bc) g,
             e_colour = ci_colour (?bc ! j), e_slot = ci_slot (?bc ! j)\<rparr>"
  have "?e \<in> set ?E"
    using h g assms(3) by (rule export_emission_intro)
  then obtain i where i: "i < length ?E" and e: "?E ! i = ?e"
    by (auto simp: in_set_conv_nth)
  have "slot_vertex (export_buffers rt geometry a) (e_slot (?E ! i)) = i"
    using i by (rule export_slot_vertex)
  then have "slot_vertex (export_buffers rt geometry a) (b_faces (snd hb) ! j) = i"
    using jl by (simp add: e b collect_fields)
  moreover have "?E ! i = \<lparr>e_position = b_vertex (snd hb),
              e_normal = average_normal rt (b_normals (snd hb)) g,
              e_colour = b_colours (snd hb) ! j, e_slot = b_faces (snd hb) ! j\<rparr>"
    using jl by (simp add: e b collect_fields)
  ultimately show ?thesis
    using i by blast
qed

lemma corner_vertex:
  assumes "c \<in> set (corner_instances geometry)"
  shows "\<exists>i < length (export_emission rt geometry a).
           slot_vertex (export_buffers rt geometry a) (ci_slot c) = i \<and>
           e_slot (export_emission rt geometry a ! i) = ci_slot c \<and>
           e_colour (export_emission rt geometry a ! i) = ci_colour c \<and>
           hash rt (e_position (export_emission rt geometry a ! i)) = hash rt (ci_vertex c) \<and>
           (\<exists>c0 \<in> set (corner_instances geometry).
              e_position (export_emission rt geometry a ! i) = ci_vertex c0)"
proof -
  let ?cs = "corner_instances geometry"
  let ?E = "export_emission rt geometry a"
  let ?bc = "same_key rt ?cs (weld_key rt c)"
  from corner_emitted [OF assms, of rt a]
  obtain i g j where i: "i < length ?E" and jl: "j < length ?bc"
    and e: "?E ! i = \<lparr>e_position = ci_vertex (hd ?bc),
              e_normal = average_normal rt (map ci_normal ?bc) g,
              e_colour = ci_colour c, e_slot = ci_slot c\<rparr>"
    by blast
  have ne: "?bc \<noteq> []" using jl by auto
  have hd: "hd ?bc \<in> set ?cs" "weld_key rt (hd ?bc) = weld_key rt c"
    using same_key_hd [OF ne] by simp_all
  have "slot_vertex (export_buffers rt geometry a) (e_slot (?E ! i)) = i"
    using i by (rule export_slot_vertex)
  then have "slot_vertex (export_buffers rt geometry a) (ci_slot c) = i"
    by (simp add: e)
  moreover have "hash rt (e_position (?E ! i)) = hash rt (ci_vertex c)"
    using hd(2) by (simp add: e weld_key_def)
  moreover have "\<exists>c0 \<in> set ?cs. e_position (?E ! i) = ci_vertex c0"
    using hd(1) by (auto simp: e)
  ultimately show ?thesis
    using i by (intro exI [of _ i]) (simp add: e)
qed

lemma mesh_corners_member:
  assumes "q < length ps" and "x < fan_size (ps ! q)" and "k < 3"
  shows "\<lparr>ci_vertex = poly_vertices (ps ! q) ! ([0, x + 1, x + 2] ! k),
          ci_normal = plane_normal (ps ! q), ci_colour = polygon_colour (ps ! q),
          ci_slot = (face0 + triangle_count (take q ps) + x, k)\<rparr>
         \<in> set (mesh_corners face0 ps)"
  using assms(1,2)
proof (induction ps arbitrary: q face0)
  case Nil
  then show ?case by simp
next
  case (Cons p ps)
  show ?case
  proof (cases q)
    case 0
    from assms(3) have "k = 0 \<or> k = 1 \<or> k = 2" by arith
    then have "\<lparr>ci_vertex = poly_vertices p ! ([0, x + 1, x + 2] ! k),
          ci_normal = plane_normal p, ci_colour = polygon_colour p,
          ci_slot = (face0 + x, k)\<rparr> \<in> set (triangle_corners p (face0 + x) x)"
      by (auto simp: triangle_corners_def)
    moreover have "x < fan_size p" using Cons.prems 0 by simp
    ultimately have "\<lparr>ci_vertex = poly_vertices p ! ([0, x + 1, x + 2] ! k),
          ci_normal = plane_normal p, ci_colour = polygon_colour p,
          ci_slot = (face0 + x, k)\<rparr> \<in> set (polygon_corners p face0)"
      unfolding polygon_corners_def by (auto simp del: upt_Suc)
    then show ?thesis
      using 0 by (simp add: triangle_count_def)
  next
    case (Suc q')
    have "\<lparr>ci_vertex = poly_vertices (ps ! q') ! ([0, x + 1, x + 2] ! k),
          ci_normal = plane_normal (ps ! q'), ci_colour = polygon_colour (ps ! q'),
          ci_slot = (face0 + fan_size p + triangle_count (take q' ps) + x, k)\<rparr>
         \<in> set (mesh_corners (face0 + fan_size p) ps)"
      using Cons.prems Suc by (intro Cons.IH) simp_all
    then show ?thesis
      using Suc by (simp add: triangle_count_def add.assoc)
  qed
qed

lemma corner_instances_member:
  assumes "q < length geometry" and "x < fan_size (geometry ! q)" and "k < 3"
  shows "\<lparr>ci_vertex = poly_vertices (geometry ! q) ! ([0, x + 1, x + 2] ! k),
          ci_normal = plane_normal (geometry ! q), ci_colour = polygon_colour (geometry ! q),
          ci_slot = (triangle_count (take q geometry) + x, k)\<rparr>
         \<in> set (corner_instances geometry)"
  using mesh_corners_member [OF assms, of 0] by (simp add: corner_instances_def)

section \<open>The square\<close>

lemma replicate_numeral: "replicate (numeral k) x = x # replicate (pred_numeral k) x"
  by (simp add: numeral_eq_Suc)

lemma toFixed_0: "toFixed rt 0 4 = ''0.0000''"
  by (simp add: toFixed_def Let_def digits_of.simps digit_def replicate_numeral)

lemma toFixed_1: "toFixed rt 1 4 = ''1.0000''"
  by (simp add: toFixed_def Let_def digits_of.simps digit_def replicate_numeral)

lemma hash_samples:
  "hash rt (vec 0 0 0) = ''0.0000_0.0000_0.0000''"
  "hash rt (vec 1 0 0) = ''1.0000_0.0000_0.0000''"
  "hash rt (vec 1 1 0) = ''1.0000_1.0000_0.0000''"
  "hash rt (vec 0 1 0) = ''0.0000_1.0000_0.0000''"
  by (simp_all add: hash_def vec_def VERTEX_PRECISION_def toFixed_0 toFixed_1)

lemma square_corners:
  "corner_instances (square c1 c2) =
     [corner (vec 0 0 0) (shade c1) (0, 0), corner (vec 1 0 0) (shade c1) (0, 1),
      corner (vec 1 1 0) (shade c1) (0, 2), corner (vec 0 0 0) (shade c2) (1, 0),
      corner (vec 1 1 0) (shade c2) (1, 1), corner (vec 0 1 0) (shade c2) (1, 2)]"
  by (simp add: corner_instances_def square_def polygon_corners_def triangle_corners_def
      fan_size_def polygon_colour_def corner_def shade_def white_def split: option.split)

lemma square_keys:
  "map (weld_key rt) (corner_instances (square c1 c2)) =
     [''0.0000_0.0000_0.0000'', ''1.0000_0.0000_0.0000'', ''1.0000_1.0000_0.0000'',
      ''0.0000_0.0000_0.0000'', ''1.0000_1.0000_0.0000'', ''0.0000_1.0000_0.0000'']"
  by (simp add: square_corners weld_key_def corner_def hash_samples)

lemma square_first_keys:
  "first_occurrences (map (weld_key rt) (corner_instances (square c1 c2))) =
     [''0.0000_0.0000_0.0000'', ''1.0000_0.0000_0.0000'', ''1.0000_1.0000_0.0000'',
      ''0.0000_1.0000_0.0000'']"
  by (simp add: square_keys first_occurrences_def)

lemma square_vertexMap:
  "vertexMap (build_buckets rt (square c1 c2)) =
     [(''0.0000_0.0000_0.0000'',
       collect [corner (vec 0 0 0) (shade c1) (0, 0), corner (vec 0 0 0) (shade c2) (1, 0)]),
      (''1.0000_0.0000_0.0000'', collect [corner (vec 1 0 0) (shade c1) (0, 1)]),
      (''1.0000_1.0000_0.0000'',
       collect [corner (vec 1 1 0) (shade c1) (0, 2), corner (vec 1 1 0) (shade c2) (1, 1)]),
      (''0.0000_1.0000_0.0000'', collect [corner (vec 0 1 0) (shade c2) (1, 2)])]"
  unfolding build_buckets_vertexMap group_by_key_def square_first_keys
  by (simp add: same_key_def square_corners weld_key_def corner_def hash_samples)

lemma angle_same: "exact_angleTo (vec 0 0 1) (vec 0 0 1) = 0"
  by (simp add: exact_angleTo_def dot_def vec_def)

lemma default_angle_nonneg: "0 \<le> default_smoothingAngle"
  by (simp add: default_smoothingAngle_def)

lemma groups_two:
  "group_normals exact_runtime default_smoothingAngle [vec 0 0 1, vec 0 0 1] = [[0, 1]]"
  by (simp add: group_normals_greedy within_angle_def exact_runtime_def angle_same
      default_angle_nonneg upt_rec)

lemma groups_one: "group_normals rt a [n] = [[0]]"
  by (simp add: group_normals_greedy)

lemma square_groups:
  "smoothing_group_count exact_runtime (square c1 c2) default_smoothingAngle = 4"
  by (simp add: smoothing_group_count_def square_vertexMap collect_fields corner_def
      groups_two groups_one)

lemma average_two:
  "average_normal exact_runtime [vec 0 0 1, vec 0 0 1] [0, Suc 0] = vec 0 0 1"
  by (simp add: average_normal_def exact_runtime_def exact_add_def exact_normalize_def
      zero_vector_def vec_def dot_def)

lemma average_one:
  "average_normal exact_runtime [vec 0 0 1] [0] = vec 0 0 1"
  by (simp add: average_normal_def exact_runtime_def exact_add_def exact_normalize_def
      zero_vector_def vec_def dot_def)

lemma square_emission:
  "export_emission exact_runtime (square c1 c2) default_smoothingAngle =
     [out_vertex (vec 0 0 0) (shade c1) (0, 0), out_vertex (vec 0 0 0) (shade c2) (1, 0),
      out_vertex (vec 1 0 0) (shade c1) (0, 1), out_vertex (vec 1 1 0) (shade c1) (0, 2),
      out_vertex (vec 1 1 0) (shade c2) (1, 1), out_vertex (vec 0 1 0) (shade c2) (1, 2)]"
  unfolding export_emission_def square_vertexMap emission_def bucket_emission_def
  by (simp add: group_emission_def collect_fields corner_def groups_two groups_one
      average_two average_one out_vertex_def)

lemma square_triangles: "triangle_count (square c1 c2) = 2"
  by (simp add: triangle_count_def square_def fan_size_def)

lemma square_index:
  "index (export_buffers exact_runtime (square c1 c2) default_smoothingAngle) =
     [0, 2, 3, 1, 4, 5]"
proof -
  have "index (export_buffers exact_runtime (square c1 c2) default_smoothingAngle) =
        flatten_faces (write_slots (replicate (triangle_count (square c1 c2)) [0, 0, 0]) 0
          (map e_slot (export_emission exact_runtime (square c1 c2) default_smoothingAngle)))"
    by (simp add: export_eq)
  also have "\<dots> = flatten_faces (write_slots (replicate 2 [0, 0, 0]) 0
          [(0, 0), (1, 0), (0, 1), (0, 2), (1, 1), (1, 2)])"
    by (simp only: square_triangles square_emission) (simp add: out_vertex_def)
  also have "\<dots> = [0, 2, 3, 1, 4, 5]"
    by (simp add: flatten_faces_def replicate_numeral)
  finally show ?thesis .
qed

lemma square_position:
  "position (export_buffers exact_runtime (square c1 c2) default_smoothingAngle) =
     [0, 0, 0,  0, 0, 0,  1, 0, 0,  1, 1, 0,  1, 1, 0,  0, 1, 0]"
proof -
  have "position (export_buffers exact_runtime (square c1 c2) default_smoothingAngle) =
        map (float32 exact_runtime) (concat (map (\<lambda>e. xyz (e_position e))
          (export_emission exact_runtime (square c1 c2) default_smoothingAngle)))"
    by (simp add: export_eq)
  also have "\<dots> = [0, 0, 0,  0, 0, 0,  1, 0, 0,  1, 1, 0,  1, 1, 0,  0, 1, 0]"
    by (simp only: square_emission)
       (simp add: out_vertex_def xyz_def vec_def exact_runtime_def)
  finally show ?thesis .
qed

lemma square_normal:
  "normal (export_buffers exact_runtime (square c1 c2) default_smoothingAngle) =
     [0, 0, 1,  0, 0, 1,  0, 0, 1,  0, 0, 1,  0, 0, 1,  0, 0, 1]"
proof -
  have "normal (export_buffers exact_runtime (square c1 c2) default_smoothingAngle) =
        map (float32 exact_runtime) (concat (map (\<lambda>e. xyz (e_normal e))
          (export_emission exact_runtime (square c1 c2) default_smoothingAngle)))"
    by (simp add: export_eq)
  also have "\<dots> = [0, 0, 1,  0, 0, 1,  0, 0, 1,  0, 0, 1,  0, 0, 1,  0, 0, 1]"
    by (simp only: square_emission)
       (simp add: out_vertex_def xyz_def vec_def exact_runtime_def)
  finally show ?thesis .
qed

lemmas unit_square_vertexMap = square_vertexMap [of _ None None, folded unit_square_def]
lemmas unit_square_groups = square_groups [of None None, folded unit_square_def]
lemmas unit_square_emission = square_emission [of None None, folded unit_square_def]
lemmas unit_square_triangles = square_triangles [of None None, folded unit_square_def]
lemmas unit_square_index = square_index [of None None, folded unit_square_def]
lemmas unit_square_position = square_position [of None None, folded unit_square_def]
lemmas unit_square_normal = square_normal [of None None, folded unit_square_def]
lemmas unit_square_corners = square_corners [of None None, folded unit_square_def]

lemma shade_None: "shade None = white"
  by (simp add: shade_def)

lemma emission_sizes:
  "length (export_emission rt geometry a) = smoothing_group_sizes rt geometry a"
  by (simp add: export_emission_def emission_def bucket_emission_def group_emission_def
      smoothing_group_sizes_def length_concat o_def)

section \<open>The guard of the export\<close>

text \<open>
  The module binds the identifier \<open>CSG\<close> of the guard nowhere. On its own, then, every call of
  \<open>exportThreeGeometry\<close> raises \<open>ReferenceError\<close>, whatever the mesh; a host that binds \<open>CSG\<close> to
  something that is not a function gets \<open>TypeError\<close>; and a mesh that is no instance of what
  \<open>CSG\<close> is bound to is handed back as it came. Buffers are built in one case only: \<open>CSG\<close> is
  bound to a constructor of which the mesh is an instance. The properties of the export are
  stated for that case.
\<close>

lemma exportThreeGeometry_unbound:
  "exportThreeGeometry rt Unbound geometry a = Inl ReferenceError"
  by (simp add: exportThreeGeometry_def)

lemma exportThreeGeometry_not_callable:
  "exportThreeGeometry rt NotCallable geometry a = Inl TypeError"
  by (simp add: exportThreeGeometry_def)

lemma exportThreeGeometry_not_instance:
  "exportThreeGeometry rt (Constructor False) geometry a = Inr (Unchanged geometry)"
  by (simp add: exportThreeGeometry_def)

lemma exportThreeGeometry_instance:
  "exportThreeGeometry rt (Constructor True) geometry a =
     Inr (Buffers (export_buffers rt geometry a))"
  by (simp add: exportThreeGeometry_def)

lemma exportThreeGeometry_buffers_iff:
  "exportThreeGeometry rt CSG geometry a = Inr (Buffers out) \<longleftrightarrow>
     CSG = Constructor True \<and> out = export_buffers rt geometry a"
  by (auto simp: exportThreeGeometry_def split: csg_binding.splits)

section \<open>Claims about the export\<close>

text \<open>
  C1 as stated fails. With \<open>CSG\<close> bound to the mesh class, the unit square given as two
  coplanar triangles has 4 smoothing groups, one per corner position, but its export has 6
  vertices: the two corner instances of the group at \<open>(0, 0, 0)\<close> get the vertex numbers 0 and 1,
  those of the group at \<open>(1, 1, 0)\<close> the numbers 3 and 4.
\<close>

theorem export_unit_square_counterexample:
  "exportThreeGeometry exact_runtime (Constructor True) unit_square default_smoothingAngle =
     Inr (Buffers (export_buffers exact_runtime unit_square default_smoothingAngle)) \<and>
   vertex_count (export_buffers exact_runtime unit_square default_smoothingAngle) = 6 \<and>
   smoothing_group_count exact_runtime unit_square default_smoothingAngle = 4 \<and>
   index (export_buffers exact_runtime unit_square default_smoothingAngle) =
     [0, 2, 3, 1, 4, 5]"
  by (simp add: exportThreeGeometry_instance export_lengths unit_square_triangles
      unit_square_groups unit_square_index)

text \<open>
  C1 (as amended). With \<open>CSG\<close> bound to the mesh class, the export of a mesh returns buffers,
  and for every mesh it pushes one output vertex per corner instance:
  the vertex count is the number of corner instances, 3 per triangle, which is the sum of the
  sizes of all smoothing groups of all buckets; every corner instance resolves to a vertex
  number of its own, the index buffer holding each number below the vertex count exactly once;
  and all corner instances of one smoothing group resolve to vertices that carry the same
  position, that of their bucket, and the same normal, the average of their group. In
  particular the unit square given as two coplanar triangles exports to 6 vertices,
  2 triangles and an index buffer of length 6 that refers to those 6 vertices.
\<close>

theorem export_vertex_per_corner:
  "exportThreeGeometry rt (Constructor True) geometry a =
     Inr (Buffers (export_buffers rt geometry a)) \<and>
   vertex_count (export_buffers rt geometry a) = length (corner_instances geometry) \<and>
   vertex_count (export_buffers rt geometry a) = 3 * triangle_count geometry \<and>
   vertex_count (export_buffers rt geometry a) = smoothing_group_sizes rt geometry a \<and>
   distinct (index (export_buffers rt geometry a)) \<and>
   set (index (export_buffers rt geometry a)) =
     {0..<vertex_count (export_buffers rt geometry a)} \<and>
   (\<forall>hb \<in> set (vertexMap (build_buckets rt geometry)).
    \<forall>g \<in> set (group_normals rt a (b_normals (snd hb))).
    \<forall>j \<in> set g.
      slot_vertex (export_buffers rt geometry a) (b_faces (snd hb) ! j)
        < vertex_count (export_buffers rt geometry a) \<and>
      triple (position (export_buffers rt geometry a))
          (slot_vertex (export_buffers rt geometry a) (b_faces (snd hb) ! j)) =
        map (float32 rt) (xyz (b_vertex (snd hb))) \<and>
      triple (normal (export_buffers rt geometry a))
          (slot_vertex (export_buffers rt geometry a) (b_faces (snd hb) ! j)) =
        map (float32 rt) (xyz (average_normal rt (b_normals (snd hb)) g))) \<and>
   vertex_count (export_buffers exact_runtime unit_square default_smoothingAngle) = 6 \<and>
   triangle_count unit_square = 2 \<and>
   length (index (export_buffers exact_runtime unit_square default_smoothingAngle)) = 6 \<and>
   set (index (export_buffers exact_runtime unit_square default_smoothingAngle)) = {0..<6}"
proof -
  let ?out = "export_buffers rt geometry a"
  let ?E = "export_emission rt geometry a"
  have vc: "vertex_count ?out = 3 * triangle_count geometry"
    by (rule export_lengths)
  have len: "length ?E = vertex_count ?out"
    by (simp only: vc emission_length)
  have c1: "vertex_count ?out = length (corner_instances geometry)"
    using arg_cong [OF emission_slots_mset [of rt geometry a], of size] len by simp
  have c3: "vertex_count ?out = smoothing_group_sizes rt geometry a"
    using emission_sizes [of rt geometry a] len by simp
  have c4: "distinct (index ?out)" and c5: "set (index ?out) = {0..<vertex_count ?out}"
    using export_index_set [of rt geometry a] by (simp_all add: vc)
  have c6: "slot_vertex ?out (b_faces (snd hb) ! j) < vertex_count ?out \<and>
      triple (position ?out) (slot_vertex ?out (b_faces (snd hb) ! j)) =
        map (float32 rt) (xyz (b_vertex (snd hb))) \<and>
      triple (normal ?out) (slot_vertex ?out (b_faces (snd hb) ! j)) =
        map (float32 rt) (xyz (average_normal rt (b_normals (snd hb)) g))"
    if "hb \<in> set (vertexMap (build_buckets rt geometry))"
      and "g \<in> set (group_normals rt a (b_normals (snd hb)))" and "j \<in> set g" for hb g j
  proof -
    from group_member_vertex [OF that]
    obtain i where i: "i < length ?E" and v: "slot_vertex ?out (b_faces (snd hb) ! j) = i"
      and e: "?E ! i = \<lparr>e_position = b_vertex (snd hb),
              e_normal = average_normal rt (b_normals (snd hb)) g,
              e_colour = b_colours (snd hb) ! j, e_slot = b_faces (snd hb) ! j\<rparr>"
      by blast
    show ?thesis
      using i export_position_triple [OF i] export_normal_triple [OF i]
      by (simp add: v e len)
  qed
  have u1: "vertex_count (export_buffers exact_runtime unit_square default_smoothingAngle) = 6"
    by (simp add: export_lengths unit_square_triangles)
  have u3: "length (index (export_buffers exact_runtime unit_square default_smoothingAngle)) = 6"
    by (simp add: export_lengths unit_square_triangles)
  have u4: "set (index (export_buffers exact_runtime unit_square default_smoothingAngle)) = {0..<6}"
    using export_index_set [of exact_runtime unit_square default_smoothingAngle]
    by (simp add: unit_square_triangles)
  have c0: "exportThreeGeometry rt (Constructor True) geometry a = Inr (Buffers ?out)"
    by (rule exportThreeGeometry_instance)
  show ?thesis
    using c0 c1 vc c3 c4 c5 c6 u1 unit_square_triangles u3 u4 by blast
qed

theorem export_vertex_per_corner_witness:
  "exportThreeGeometry exact_runtime (Constructor True) unit_square default_smoothingAngle =
     Inr (Buffers (export_buffers exact_runtime unit_square default_smoothingAngle)) \<and>
   (''0.0000_0.0000_0.0000'', collect [corner (vec 0 0 0) white (0, 0), corner (vec 0 0 0) white (1, 0)])
     \<in> set (vertexMap (build_buckets exact_runtime unit_square)) \<and>
   [0, 1] \<in> set (group_normals exact_runtime default_smoothingAngle [vec 0 0 1, vec 0 0 1]) \<and>
   distinct (index (export_buffers exact_runtime unit_square default_smoothingAngle)) \<and>
   vertex_count (export_buffers exact_runtime unit_square default_smoothingAngle) = 6 \<and>
   slot_vertex (export_buffers exact_runtime unit_square default_smoothingAngle) (0, 0) = 0 \<and>
   slot_vertex (export_buffers exact_runtime unit_square default_smoothingAngle) (1, 0) = 1 \<and>
   triple (position (export_buffers exact_runtime unit_square default_smoothingAngle)) 0 =
     [0, 0, 0] \<and>
   triple (position (export_buffers exact_runtime unit_square default_smoothingAngle)) 1 =
     [0, 0, 0] \<and>
   triple (normal (export_buffers exact_runtime unit_square default_smoothingAngle)) 1 =
     [0, 0, 1]"
proof -
  let ?out = "export_buffers exact_runtime unit_square default_smoothingAngle"
  let ?b = "collect [corner (vec 0 0 0) white (0, 0), corner (vec 0 0 0) white (1, 0)]"
  note R = export_vertex_per_corner [of exact_runtime unit_square default_smoothingAngle]
  note T = R [THEN conjunct2]
  have r: "exportThreeGeometry exact_runtime (Constructor True) unit_square default_smoothingAngle =
     Inr (Buffers ?out)"
    by (rule R [THEN conjunct1])
  have hb: "(''0.0000_0.0000_0.0000'', ?b) \<in> set (vertexMap (build_buckets exact_runtime unit_square))"
    by (simp add: unit_square_vertexMap shade_None)
  have g: "[0, 1] \<in> set (group_normals exact_runtime default_smoothingAngle [vec 0 0 1, vec 0 0 1])"
    by (simp add: groups_two)
  have g': "[0, 1] \<in> set (group_normals exact_runtime default_smoothingAngle
              (b_normals (snd (''0.0000_0.0000_0.0000'', ?b))))"
    using g by (simp add: collect_fields corner_def)
  have d: "distinct (index ?out)"
    by (rule T [THEN conjunct2, THEN conjunct2, THEN conjunct2, THEN conjunct1])
  have vc: "vertex_count ?out = 6"
    using T [THEN conjunct2, THEN conjunct1] by (simp add: unit_square_triangles)
  note G = T [THEN conjunct2, THEN conjunct2, THEN conjunct2, THEN conjunct2, THEN conjunct2,
    THEN conjunct1, rule_format, OF hb g']
  have s0: "slot_vertex ?out (0, 0) = 0" and s1: "slot_vertex ?out (1, 0) = 1"
    by (simp_all add: slot_vertex_def unit_square_index)
  have avg: "average_normal exact_runtime (b_normals ?b) [0, 1] = vec 0 0 1"
    using average_two by (simp add: collect_fields corner_def)
  have p0: "triple (position ?out) 0 = [0, 0, 0]"
    using G [of 0] s0 by (simp add: collect_fields corner_def xyz_def vec_def exact_runtime_def)
  have p1: "triple (position ?out) 1 = [0, 0, 0]"
    using G [of 1] s1 by (simp add: collect_fields corner_def xyz_def vec_def exact_runtime_def)
  have n1: "triple (normal ?out) 1 = [0, 0, 1]"
    using G [of 1] s1 avg by (simp add: collect_fields corner_def xyz_def vec_def exact_runtime_def)
  show ?thesis
    using r hb g d vc s0 s1 p0 p1 n1 by blast
qed

lemma concat_triples_nth:
  assumes "\<And>x. length (f x) = 3" and "t < length xs" and "k < 3"
  shows "concat (map f xs) ! (3 * t + k) = f (xs ! t) ! k"
  using assms(2)
proof (induction xs arbitrary: t)
  case Nil
  then show ?case by simp
next
  case (Cons x xs)
  show ?case
  proof (cases t)
    case 0
    then show ?thesis using assms(1,3) by (simp add: nth_append)
  next
    case (Suc t')
    have "concat (map f (x # xs)) ! (3 * t + k) = concat (map f xs) ! (3 * t' + k)"
      using Suc assms(1) by (simp add: nth_append)
    also have "\<dots> = f (xs ! t') ! k"
      using Cons.prems Suc by (intro Cons.IH) simp
    finally show ?thesis using Suc by simp
  qed
qed

lemma corner_slot_nth:
  assumes "t < triangle_count geometry" and "k < 3"
  shows "3 * t + k < length (corner_instances geometry) \<and>
         ci_slot (corner_instances geometry ! (3 * t + k)) = (t, k)"
proof -
  let ?cs = "corner_instances geometry"
  have len: "length ?cs = 3 * triangle_count geometry"
    using arg_cong [OF corner_slots [of geometry], of length]
    by (simp add: length_concat o_def sum_list_triv)
  have lt: "3 * t + k < length ?cs"
    unfolding len using assms by arith
  from assms(2) have k: "k = 0 \<or> k = 1 \<or> k = 2" by arith
  have "map ci_slot ?cs ! (3 * t + k) =
        [(t, 0), (t, 1), (t, 2)] ! k"
    unfolding corner_slots
    using concat_triples_nth [of "\<lambda>t. [(t, 0::nat), (t, 1), (t, 2)]" t "[0..<triangle_count geometry]" k]
      assms by simp
  also have "\<dots> = (t, k)"
    using k by auto
  finally show ?thesis
    using lt by simp
qed

lemma emitted_slot_once:
  assumes "t < triangle_count geometry" and "k < 3"
  shows "count_list (map e_slot (export_emission rt geometry a)) (t, k) = 1"
proof -
  have "(t, k) \<in> set (map ci_slot (corner_instances geometry))"
    using corner_slot_nth [OF assms] by (metis nth_mem image_eqI set_map)
  then have "(t, k) \<in> set (map e_slot (export_emission rt geometry a))"
    using emission_slots_mset [of rt geometry a] by (metis mset_eq_setD)
  then have "count (mset (map e_slot (export_emission rt geometry a))) (t, k) = 1"
    using emission_slots_distinct [of rt geometry a] by (simp add: distinct_count_atmost_1)
  then show ?thesis
    by (simp only: count_mset)
qed

lemma slot_vertex_emitted:
  assumes "t < triangle_count geometry" and "k < 3"
  shows "slot_vertex (export_buffers rt geometry a) (t, k) < length (export_emission rt geometry a) \<and>
         e_slot (export_emission rt geometry a ! slot_vertex (export_buffers rt geometry a) (t, k))
           = (t, k)"
proof -
  let ?E = "export_emission rt geometry a"
  have "count_list (map e_slot ?E) (t, k) = 1"
    using assms by (rule emitted_slot_once)
  then have "(t, k) \<in> set (map e_slot ?E)"
    by (metis count_list_0_iff zero_neq_one)
  then obtain i where i: "i < length ?E" and s: "e_slot (?E ! i) = (t, k)"
    by (auto simp: in_set_conv_nth)
  have "slot_vertex (export_buffers rt geometry a) (e_slot (?E ! i)) = i"
    using i by (rule export_slot_vertex)
  then show ?thesis
    using i s by simp
qed

text \<open>
  C9. With \<open>CSG\<close> bound to the mesh class the export returns buffers, and then every slot
  of every triangle's index record has been set: each corner instance, corner \<open>k\<close> of triangle \<open>t\<close> in creation order, is emitted exactly once over all
  smoothing groups of all buckets, and the index buffer, which has 3 entries per triangle,
  holds at position \<open>3 * t + k\<close> the number of the vertex emitted for that corner, a number
  below the vertex count.
\<close>

theorem export_index_populated:
  "exportThreeGeometry rt (Constructor True) geometry a =
     Inr (Buffers (export_buffers rt geometry a)) \<and>
   length (index (export_buffers rt geometry a)) = 3 * triangle_count geometry \<and>
   (\<forall>t < triangle_count geometry. \<forall>k < 3.
      ci_slot (corner_instances geometry ! (3 * t + k)) = (t, k) \<and>
      count_list (map e_slot (export_emission rt geometry a)) (t, k) = 1 \<and>
      index (export_buffers rt geometry a) ! (3 * t + k)
        < vertex_count (export_buffers rt geometry a) \<and>
      e_slot (export_emission rt geometry a ! (index (export_buffers rt geometry a) ! (3 * t + k)))
        = (t, k))"
proof (intro conjI allI impI)
  let ?out = "export_buffers rt geometry a"
  let ?E = "export_emission rt geometry a"
  let ?cs = "corner_instances geometry"
  show "exportThreeGeometry rt (Constructor True) geometry a = Inr (Buffers ?out)"
    by (rule exportThreeGeometry_instance)
  show "length (index ?out) = 3 * triangle_count geometry"
    by (rule export_lengths)
  fix t k
  assume t: "t < triangle_count geometry" and k: "k < (3::nat)"
  show "ci_slot (?cs ! (3 * t + k)) = (t, k)"
    using corner_slot_nth [OF t k] by simp
  show "count_list (map e_slot ?E) (t, k) = 1"
    using t k by (rule emitted_slot_once)
  have v: "index ?out ! (3 * t + k) = slot_vertex ?out (t, k)"
    by (simp add: slot_vertex_def)
  show "index ?out ! (3 * t + k) < vertex_count ?out"
    using slot_vertex_emitted [OF t k, of rt a]
    by (simp add: v emission_length export_lengths)
  show "e_slot (?E ! (index ?out ! (3 * t + k))) = (t, k)"
    using slot_vertex_emitted [OF t k, of rt a] by (simp add: v)
qed

theorem export_index_populated_witness:
  "exportThreeGeometry exact_runtime (Constructor True) unit_square default_smoothingAngle =
     Inr (Buffers (export_buffers exact_runtime unit_square default_smoothingAngle)) \<and>
   (1::nat) < triangle_count unit_square \<and> (2::nat) < 3 \<and>
   length (index (export_buffers exact_runtime unit_square default_smoothingAngle)) = 6 \<and>
   ci_slot (corner_instances unit_square ! 5) = (1, 2) \<and>
   count_list (map e_slot (export_emission exact_runtime unit_square default_smoothingAngle)) (1, 2) = 1 \<and>
   index (export_buffers exact_runtime unit_square default_smoothingAngle) ! 5 = 5 \<and>
   vertex_count (export_buffers exact_runtime unit_square default_smoothingAngle) = 6 \<and>
   e_slot (export_emission exact_runtime unit_square default_smoothingAngle ! 5) = (1, 2)"
proof -
  let ?out = "export_buffers exact_runtime unit_square default_smoothingAngle"
  note R = export_index_populated [of exact_runtime unit_square default_smoothingAngle]
  note T = R [THEN conjunct2]
  have r: "exportThreeGeometry exact_runtime (Constructor True) unit_square default_smoothingAngle =
     Inr (Buffers ?out)"
    by (rule R [THEN conjunct1])
  have t: "(1::nat) < triangle_count unit_square"
    by (simp add: unit_square_triangles)
  have k: "(2::nat) < 3"
    by simp
  note S = T [THEN conjunct2, rule_format, OF t k]
  have l: "length (index ?out) = 6"
    using T [THEN conjunct1] by (simp add: unit_square_triangles)
  have i: "index ?out ! 5 = 5"
    by (simp add: unit_square_index)
  have vc: "vertex_count ?out = 6"
    by (simp add: export_lengths unit_square_triangles)
  have "ci_slot (corner_instances unit_square ! 5) = (1, 2)"
    using S [THEN conjunct1] by simp
  moreover have "count_list (map e_slot (export_emission exact_runtime unit_square default_smoothingAngle)) (1, 2) = 1"
    using S [THEN conjunct2, THEN conjunct1] by simp
  moreover have "e_slot (export_emission exact_runtime unit_square default_smoothingAngle ! 5) = (1, 2)"
    using S [THEN conjunct2, THEN conjunct2, THEN conjunct2] i by simp
  ultimately show ?thesis
    using r t k l i vc by blast
qed

lemma corner_bucket:
  assumes "c \<in> set (corner_instances geometry)"
  shows "\<exists>hb \<in> set (vertexMap (build_buckets rt geometry)).
           fst hb = hash rt (ci_vertex c) \<and>
           (\<exists>j < length (b_faces (snd hb)).
              b_faces (snd hb) ! j = ci_slot c \<and> b_normals (snd hb) ! j = ci_normal c \<and>
              b_colours (snd hb) ! j = ci_colour c)"
proof -
  let ?cs = "corner_instances geometry"
  let ?h = "weld_key rt c"
  let ?bc = "same_key rt ?cs ?h"
  have "c \<in> set ?bc"
    using assms by (simp add: same_key_member)
  then obtain j where j: "j < length ?bc" and c: "?bc ! j = c"
    by (auto simp: in_set_conv_nth)
  have "?h \<in> set (first_occurrences (map (weld_key rt) ?cs))"
    using assms by (simp add: set_first_occurrences)
  then have "(?h, collect ?bc) \<in> set (vertexMap (build_buckets rt geometry))"
    by (auto simp: build_buckets_vertexMap group_by_key_def)
  moreover have "fst (?h, collect ?bc) = hash rt (ci_vertex c)"
    by (simp add: weld_key_def)
  moreover have "j < length (b_faces (snd (?h, collect ?bc)))"
    "b_faces (snd (?h, collect ?bc)) ! j = ci_slot c"
    "b_normals (snd (?h, collect ?bc)) ! j = ci_normal c"
    "b_colours (snd (?h, collect ?bc)) ! j = ci_colour c"
    using j c by (simp_all add: collect_fields)
  ultimately show ?thesis
    by blast
qed

lemma triangle_count_fan:
  "triangle_count geometry = (\<Sum>p\<leftarrow>geometry. length (poly_vertices p) - 2)"
  by (simp add: triangle_count_def fan_size_def [abs_def])

lemma fan_triangle_number:
  assumes "q < length geometry" and "x < fan_size (geometry ! q)"
  shows "triangle_count (take q geometry) + x < triangle_count geometry"
proof -
  have "geometry = take q geometry @ geometry ! q # drop (Suc q) geometry"
    using assms(1) by (simp add: id_take_nth_drop)
  then have "triangle_count geometry =
             triangle_count (take q geometry) + fan_size (geometry ! q) +
             triangle_count (drop (Suc q) geometry)"
    unfolding triangle_count_def by (metis add.assoc list.simps(9) map_append sum_list.Cons sum_list.append)
  then show ?thesis
    using assms(2) by simp
qed

lemma ulp_vals: "(2::real) powr - 23 = 1 / 2 ^ 23" "(2::real) powr - 7 = 1 / 2 ^ 7"
  by (simp_all add: powr_minus powr_numeral inverse_eq_divide del: power_numeral)

lemma floor_log_far: "\<lfloor>log 2 \<bar>100000 + 3 / 1024 :: real\<bar>\<rfloor> = 16"
proof -
  have "(2::real) powr (of_int 16) \<le> 100000 + 3 / 1024 \<and> (100000 + 3 / 1024 :: real) < 2 powr (of_int (16 + 1))"
    by simp
  then show ?thesis
    by (subst floor_log_eq_powr_iff) simp_all
qed

lemma fround_0: "fround 0 = 0"
  by (simp add: fround_def)

lemma fround_1: "fround 1 = 1"
  by (simp add: fround_def round_half_even_def Let_def ulp_vals)

lemma fround_far: "fround far_x = 100000"
proof -
  have f: "\<lfloor>(12800000 + 3 / 8 :: real)\<rfloor> = 12800000"
    by (simp add: floor_eq_iff)
  have q: "(100000 + 3 / 1024 :: real) / (2 powr (of_int 16 - 23)) = 12800000 + 3 / 8"
    by (simp add: ulp_vals)
  have r: "round_half_even (12800000 + 3 / 8) = 12800000"
    unfolding round_half_even_def Let_def f by simp
  have "fround (100000 + 3 / 1024) = of_int (round_half_even ((100000 + 3 / 1024) / (2 powr (of_int 16 - 23)))) * 2 powr (of_int 16 - 23)"
    unfolding fround_def Let_def floor_log_far by simp
  also have "\<dots> = 100000"
    unfolding q r by (simp add: ulp_vals)
  finally show ?thesis
    by (simp only: far_x_def)
qed

lemma toFixed_whole:
  assumes "0 \<le> x" and "x < 10 ^ 21" and "\<lfloor>x * 10 ^ 4 + 1 / 2\<rfloor> = int n"
    and "digits_of n = ds" and "4 < length ds"
  shows "toFixed rt x 4 = take (length ds - 4) ds @ ''.'' @ drop (length ds - 4) ds"
proof -
  have "\<not> x < 0" and "\<not> 10 ^ 21 \<le> x"
    using assms(1,2) by simp_all
  moreover have "nat \<lfloor>(if x < 0 then - x else x) * 10 ^ 4 + 1 / 2\<rfloor> = n"
    using assms(1,3) by simp
  ultimately show ?thesis
    unfolding toFixed_def Let_def
    using assms(5) by (simp only: assms(4)) simp
qed

lemma digits_far:
  "digits_of 1000000029 = ''1000000029''"
  "digits_of 1000000000 = ''1000000000''"
  by (simp_all add: digits_of.simps digit_def)

lemma toFixed_far:
  "toFixed rt far_x 4 = ''100000.0029''"
  "toFixed rt 100000 4 = ''100000.0000''"
  unfolding far_x_def
proof -
  have f: "\<lfloor>(100000 + 3 / 1024 :: real) * 10 ^ 4 + 1 / 2\<rfloor> = int 1000000029"
    by (simp add: floor_eq_iff)
  have "toFixed rt (100000 + 3 / 1024) 4 =
        take (length ''1000000029'' - 4) ''1000000029'' @ ''.'' @
        drop (length ''1000000029'' - 4) ''1000000029''"
    by (rule toFixed_whole [OF _ _ f digits_far(1)]) simp_all
  then show "toFixed rt (100000 + 3 / 1024) 4 = ''100000.0029''"
    by simp
  have g: "\<lfloor>(100000 :: real) * 10 ^ 4 + 1 / 2\<rfloor> = int 1000000000"
    by (simp add: floor_eq_iff)
  have "toFixed rt 100000 4 =
        take (length ''1000000000'' - 4) ''1000000000'' @ ''.'' @
        drop (length ''1000000000'' - 4) ''1000000000''"
    by (rule toFixed_whole [OF _ _ g digits_far(2)]) simp_all
  then show "toFixed rt 100000 4 = ''100000.0000''"
    by simp
qed

lemma far_hashes:
  "hash rt (vec 0 0 0) = ''0.0000_0.0000_0.0000''"
  "hash rt (vec far_x 0 0) = ''100000.0029_0.0000_0.0000''"
  "hash rt (vec 0 1 0) = ''0.0000_1.0000_0.0000''"
  by (simp_all add: hash_def vec_def VERTEX_PRECISION_def toFixed_0 toFixed_1 toFixed_far)

lemma far_corners:
  "corner_instances far_triangle =
     [corner (vec 0 0 0) white (0, 0), corner (vec far_x 0 0) white (0, 1),
      corner (vec 0 1 0) white (0, 2)]"
  by (simp add: corner_instances_def far_triangle_def polygon_corners_def triangle_corners_def
      fan_size_def polygon_colour_def corner_def white_def)

lemma far_position:
  "triple (position (export_buffers binary32_runtime far_triangle a))
     (slot_vertex (export_buffers binary32_runtime far_triangle a) (0, 1)) = [100000, 0, 0]"
proof -
  let ?rt = binary32_runtime
  let ?E = "export_emission ?rt far_triangle a"
  let ?c = "corner (vec far_x 0 0) white (0, 1)"
  have c: "?c \<in> set (corner_instances far_triangle)"
    by (simp add: far_corners)
  from corner_vertex [OF c, of ?rt a]
  obtain i c0 where i: "i < length ?E"
    and v: "slot_vertex (export_buffers ?rt far_triangle a) (ci_slot ?c) = i"
    and h: "hash ?rt (e_position (?E ! i)) = hash ?rt (ci_vertex ?c)"
    and c0: "c0 \<in> set (corner_instances far_triangle)" "e_position (?E ! i) = ci_vertex c0"
    by blast
  have p: "e_position (?E ! i) = vec far_x 0 0"
    using c0 h by (auto simp: far_corners corner_def far_hashes)
  have "triple (position (export_buffers ?rt far_triangle a)) i =
        map (float32 ?rt) (xyz (vec far_x 0 0))"
    using export_position_triple [OF i] by (simp only: p)
  also have "\<dots> = [100000, 0, 0]"
    by (simp add: binary32_runtime_def xyz_def vec_def fround_far fround_0)
  finally show ?thesis
    using v by (simp add: corner_def)
qed

lemma round_half_even_error: "\<bar>of_int (round_half_even y) - y\<bar> \<le> 1 / 2"
proof -
  define n where "n = \<lfloor>y\<rfloor>"
  have "of_int n \<le> y" and "y < of_int n + 1"
    unfolding n_def by linarith+
  then show ?thesis
    unfolding round_half_even_def Let_def n_def [symmetric] by (auto simp: abs_if)
qed

lemma fround_error:
  "\<bar>fround x - x\<bar> \<le> max (\<bar>x\<bar> / 2 ^ 24) (1 / 2 ^ 150)"
proof (cases "x = 0")
  case True
  then show ?thesis by (simp add: fround_def)
next
  case False
  define e where "e = max \<lfloor>log 2 \<bar>x\<bar>\<rfloor> (- 126)"
  define ulp :: real where "ulp = 2 powr (of_int e - 23)"
  have pos: "0 < ulp"
    by (simp add: ulp_def)
  have f: "fround x = of_int (round_half_even (x / ulp)) * ulp"
    using False by (simp add: fround_def Let_def e_def ulp_def)
  have "fround x - x = (of_int (round_half_even (x / ulp)) - x / ulp) * ulp"
    using pos by (simp add: f field_simps)
  then have "\<bar>fround x - x\<bar> = \<bar>of_int (round_half_even (x / ulp)) - x / ulp\<bar> * ulp"
    using pos by (simp add: abs_mult)
  also have "\<dots> \<le> 1 / 2 * ulp"
    using round_half_even_error [of "x / ulp"] pos by (intro mult_right_mono) simp_all
  finally have b: "\<bar>fround x - x\<bar> \<le> ulp / 2"
    by simp
  have u: "ulp / 2 = 2 powr (of_int e) / 2 ^ 24"
    by (simp add: ulp_def powr_diff powr_numeral)
  show ?thesis
  proof (cases "- 126 \<le> \<lfloor>log 2 \<bar>x\<bar>\<rfloor>")
    case True
    then have "e = \<lfloor>log 2 \<bar>x\<bar>\<rfloor>"
      by (simp add: e_def)
    then have "of_int e \<le> log 2 \<bar>x\<bar>"
      by simp
    then have "2 powr (of_int e) \<le> 2 powr (log 2 \<bar>x\<bar>)"
      by (simp only: powr_le_cancel_iff [of 2] one_less_numeral_iff semiring_norm)
    then have "2 powr (of_int e) \<le> \<bar>x\<bar>"
      using False by simp
    then have "ulp / 2 \<le> \<bar>x\<bar> / 2 ^ 24"
      unfolding u by (simp add: divide_right_mono del: power_numeral)
    with b have "\<bar>fround x - x\<bar> \<le> \<bar>x\<bar> / 2 ^ 24"
      by (rule order_trans)
    then show ?thesis
      by (rule max.coboundedI1)
  next
    case False
    then have "e = - 126"
      by (simp add: e_def)
    then have "ulp / 2 = 1 / 2 ^ 150"
      unfolding u by (simp add: powr_minus powr_numeral inverse_eq_divide field_simps)
    with b have "\<bar>fround x - x\<bar> \<le> 1 / 2 ^ 150"
      by (simp only:)
    then show ?thesis
      by (rule max.coboundedI2)
  qed
qed

text \<open>
  C2 as stated fails where it comes to positions. With \<open>CSG\<close> bound to the mesh class and
  the conversion to \<open>Float32Array\<close> rounding to binary32, the triangle with the vertex
  \<open>(100000.0029296875, 0, 0)\<close> exports, for that corner, to a vertex at \<open>(100000, 0, 0)\<close>: its
  weld key is that of none of the polygon's vertices, and it is farther than \<open>0.0001\<close> from
  each of them.
\<close>

theorem export_far_triangle_counterexample:
  "exportThreeGeometry binary32_runtime (Constructor True) far_triangle default_smoothingAngle =
     Inr (Buffers (export_buffers binary32_runtime far_triangle default_smoothingAngle)) \<and>
   poly_vertices (far_triangle ! 0) =
     [vec 0 0 0, vec far_x 0 0, vec 0 1 0] \<and>
   triple (position (export_buffers binary32_runtime far_triangle default_smoothingAngle))
     (slot_vertex (export_buffers binary32_runtime far_triangle default_smoothingAngle) (0, 1)) =
     [100000, 0, 0] \<and>
   hash binary32_runtime (vec 100000 0 0) = ''100000.0000_0.0000_0.0000'' \<and>
   hash binary32_runtime (vec 0 0 0) = ''0.0000_0.0000_0.0000'' \<and>
   hash binary32_runtime (vec far_x 0 0) = ''100000.0029_0.0000_0.0000'' \<and>
   hash binary32_runtime (vec 0 1 0) = ''0.0000_1.0000_0.0000'' \<and>
   1 / 10000 < \<bar>100000 - (0::real)\<bar> \<and>
   1 / 10000 < \<bar>100000 - far_x\<bar>"
proof -
  have "hash binary32_runtime (vec 100000 0 0) = ''100000.0000_0.0000_0.0000''"
    by (simp add: hash_def vec_def VERTEX_PRECISION_def toFixed_0 toFixed_far)
  moreover have "poly_vertices (far_triangle ! 0) =
     [vec 0 0 0, vec far_x 0 0, vec 0 1 0]"
    by (simp add: far_triangle_def)
  moreover have "1 / 10000 < \<bar>100000 - far_x\<bar>"
    by (simp add: far_x_def)
  moreover note far_position [of default_smoothingAngle]
  ultimately show ?thesis
    by (simp add: exportThreeGeometry_instance far_hashes)
qed

text \<open>
  C2 (as amended). With \<open>CSG\<close> bound to the mesh class the export returns buffers. A polygon
  with \<open>n \<ge> 3\<close> vertices contributes \<open>n - 2\<close> triangles to the index buffer, so that the buffer
  has 3 entries for each of the \<open>n - 2\<close> triangles of every polygon. Triangle \<open>x\<close> of polygon
  number \<open>q\<close>, for every \<open>x < n - 2\<close>, takes its corners from the polygon's vertices 0, \<open>x + 1\<close>
  and \<open>x + 2\<close>: its corner \<open>k\<close> is filed in the bucket of that vertex's weld key together with
  the polygon's plane normal and colour, and the index buffer holds for it an output vertex
  whose position is the conversion to \<open>Float32Array\<close> of the position of a vertex of the mesh
  that has the weld key of that polygon vertex and, when colours are emitted, whose colour is
  the polygon's. When the conversion rounds to binary32, each coordinate of that output
  position is within \<open>2^(-24)\<close> times the magnitude of the coordinate it converts, or within
  \<open>2^(-150)\<close>, whichever is larger, for magnitudes below \<open>2^127\<close>.
\<close>

theorem export_fan_triangulation:
  assumes "q < length geometry" and "3 \<le> length (poly_vertices (geometry ! q))"
    and "x < length (poly_vertices (geometry ! q)) - 2" and "k < 3"
  shows "exportThreeGeometry rt (Constructor True) geometry a =
           Inr (Buffers (export_buffers rt geometry a)) \<and>
         length (index (export_buffers rt geometry a)) =
           3 * (\<Sum>p\<leftarrow>geometry. length (poly_vertices p) - 2) \<and>
         3 * (triangle_count (take q geometry) + x) + k
           < length (index (export_buffers rt geometry a)) \<and>
         slot_vertex (export_buffers rt geometry a) (triangle_count (take q geometry) + x, k)
           < vertex_count (export_buffers rt geometry a) \<and>
         (\<exists>c0 \<in> set (corner_instances geometry).
            hash rt (ci_vertex c0) =
              hash rt (poly_vertices (geometry ! q) ! ([0, x + 1, x + 2] ! k)) \<and>
            triple (position (export_buffers rt geometry a))
              (slot_vertex (export_buffers rt geometry a)
                 (triangle_count (take q geometry) + x, k)) =
              map (float32 rt) (xyz (ci_vertex c0)) \<and>
            (float32 rt = fround \<longrightarrow>
               (\<forall>j < 3. \<bar>xyz (ci_vertex c0) ! j\<bar> < 2 ^ 127 \<longrightarrow>
                  \<bar>triple (position (export_buffers rt geometry a))
                      (slot_vertex (export_buffers rt geometry a)
                         (triangle_count (take q geometry) + x, k)) ! j -
                    xyz (ci_vertex c0) ! j\<bar>
                  \<le> max (\<bar>xyz (ci_vertex c0) ! j\<bar> / 2 ^ 24) (1 / 2 ^ 150)))) \<and>
         (\<exists>hb \<in> set (vertexMap (build_buckets rt geometry)).
            fst hb = hash rt (poly_vertices (geometry ! q) ! ([0, x + 1, x + 2] ! k)) \<and>
            (\<exists>j < length (b_faces (snd hb)).
               b_faces (snd hb) ! j = (triangle_count (take q geometry) + x, k) \<and>
               b_normals (snd hb) ! j = plane_normal (geometry ! q) \<and>
               b_colours (snd hb) ! j = polygon_colour (geometry ! q))) \<and>
         (\<forall>cols. color (export_buffers rt geometry a) = Some cols \<longrightarrow>
            triple cols (slot_vertex (export_buffers rt geometry a)
                           (triangle_count (take q geometry) + x, k)) =
            map (float32 rt) (rgb_list (polygon_colour (geometry ! q))))"
proof -
  let ?out = "export_buffers rt geometry a"
  let ?E = "export_emission rt geometry a"
  let ?p = "geometry ! q"
  let ?t = "triangle_count (take q geometry) + x"
  let ?c = "\<lparr>ci_vertex = poly_vertices ?p ! ([0, x + 1, x + 2] ! k),
             ci_normal = plane_normal ?p, ci_colour = polygon_colour ?p, ci_slot = (?t, k)\<rparr>"
  have x: "x < fan_size ?p"
    using assms(3) by (simp add: fan_size_def)
  have c: "?c \<in> set (corner_instances geometry)"
    using assms(1) x assms(4) by (rule corner_instances_member)
  have t: "?t < triangle_count geometry"
    using assms(1) x by (rule fan_triangle_number)
  have g: "exportThreeGeometry rt (Constructor True) geometry a = Inr (Buffers ?out)"
    by (rule exportThreeGeometry_instance)
  have l: "length (index ?out) = 3 * (\<Sum>p\<leftarrow>geometry. length (poly_vertices p) - 2)"
    by (simp only: export_lengths triangle_count_fan)
  have r: "3 * ?t + k < length (index ?out)"
    using t assms(4) by (simp add: export_lengths)
  from corner_vertex [OF c, of rt a]
  obtain i c0 where i: "i < length ?E" and v: "slot_vertex ?out (?t, k) = i"
    and col: "e_colour (?E ! i) = polygon_colour ?p"
    and h: "hash rt (e_position (?E ! i)) = hash rt (poly_vertices ?p ! ([0, x + 1, x + 2] ! k))"
    and c0: "c0 \<in> set (corner_instances geometry)" "e_position (?E ! i) = ci_vertex c0"
    by auto
  have v1: "slot_vertex ?out (?t, k) < vertex_count ?out"
    using i by (simp add: v emission_length export_lengths)
  have p: "triple (position ?out) (slot_vertex ?out (?t, k)) = map (float32 rt) (xyz (ci_vertex c0))"
    using export_position_triple [OF i] by (simp only: v c0(2))
  have e: "\<bar>triple (position ?out) (slot_vertex ?out (?t, k)) ! j - xyz (ci_vertex c0) ! j\<bar>
           \<le> max (\<bar>xyz (ci_vertex c0) ! j\<bar> / 2 ^ 24) (1 / 2 ^ 150)"
    if "float32 rt = fround" and "j < 3" for j
  proof -
    have "length (xyz (ci_vertex c0)) = 3"
      by (simp add: xyz_def)
    with that(2) have "triple (position ?out) (slot_vertex ?out (?t, k)) ! j =
          fround (xyz (ci_vertex c0) ! j)"
      by (simp only: p that(1)) simp
    then show ?thesis
      by (simp only: fround_error)
  qed
  have v2: "\<exists>c0 \<in> set (corner_instances geometry).
            hash rt (ci_vertex c0) = hash rt (poly_vertices ?p ! ([0, x + 1, x + 2] ! k)) \<and>
            triple (position ?out) (slot_vertex ?out (?t, k)) =
              map (float32 rt) (xyz (ci_vertex c0)) \<and>
            (float32 rt = fround \<longrightarrow>
               (\<forall>j < 3. \<bar>xyz (ci_vertex c0) ! j\<bar> < 2 ^ 127 \<longrightarrow>
                  \<bar>triple (position ?out) (slot_vertex ?out (?t, k)) ! j - xyz (ci_vertex c0) ! j\<bar>
                  \<le> max (\<bar>xyz (ci_vertex c0) ! j\<bar> / 2 ^ 24) (1 / 2 ^ 150)))"
    using c0(1) h p e unfolding c0(2) by blast
  have v3: "\<exists>hb \<in> set (vertexMap (build_buckets rt geometry)).
            fst hb = hash rt (poly_vertices ?p ! ([0, x + 1, x + 2] ! k)) \<and>
            (\<exists>j < length (b_faces (snd hb)).
               b_faces (snd hb) ! j = (?t, k) \<and>
               b_normals (snd hb) ! j = plane_normal ?p \<and>
               b_colours (snd hb) ! j = polygon_colour ?p)"
    using corner_bucket [OF c, of rt] by simp
  have v4: "\<forall>cols. color ?out = Some cols \<longrightarrow>
            triple cols (slot_vertex ?out (?t, k)) = map (float32 rt) (rgb_list (polygon_colour ?p))"
    using export_color_triple [OF i] by (simp add: v col)
  show ?thesis
    using g l r v1 v2 v3 v4 by blast
qed

lemma quad_face_corners: "corner_instances quad_face = corner_instances unit_square"
  by (simp add: unit_square_corners shade_None)
     (simp add: corner_instances_def quad_face_def polygon_corners_def triangle_corners_def
        fan_size_def polygon_colour_def corner_def white_def upt_rec)

lemma quad_face_triangles: "triangle_count quad_face = 2"
  by (simp add: triangle_count_def quad_face_def fan_size_def)

lemma quad_face_export:
  "export_buffers rt quad_face a = export_buffers rt unit_square a"
proof -
  have "export_emission rt quad_face a = export_emission rt unit_square a"
    by (simp only: export_emission_eq quad_face_corners)
  moreover have "(\<exists>p \<in> set quad_face. shared_color p \<noteq> None) =
                 (\<exists>p \<in> set unit_square. shared_color p \<noteq> None)"
    by (simp add: quad_face_def unit_square_def square_def)
  ultimately show ?thesis
    by (simp only: export_eq quad_face_triangles unit_square_triangles)
qed

theorem export_fan_triangulation_witness:
  "exportThreeGeometry binary32_runtime (Constructor True) far_triangle default_smoothingAngle =
     Inr (Buffers (export_buffers binary32_runtime far_triangle default_smoothingAngle)) \<and>
   (0::nat) < length far_triangle \<and> 3 \<le> length (poly_vertices (far_triangle ! 0)) \<and>
   (0::nat) < length (poly_vertices (far_triangle ! 0)) - 2 \<and> (1::nat) < 3 \<and>
   float32 binary32_runtime = fround \<and>
   poly_vertices (far_triangle ! 0) ! ([0, 0 + 1, 0 + 2] ! 1) = vec far_x 0 0 \<and>
   \<bar>far_x\<bar> < 2 ^ 127 \<and>
   length (index (export_buffers binary32_runtime far_triangle default_smoothingAngle)) = 3 \<and>
   slot_vertex (export_buffers binary32_runtime far_triangle default_smoothingAngle) (0, 1)
     < vertex_count (export_buffers binary32_runtime far_triangle default_smoothingAngle) \<and>
   triple (position (export_buffers binary32_runtime far_triangle default_smoothingAngle))
     (slot_vertex (export_buffers binary32_runtime far_triangle default_smoothingAngle) (0, 1)) =
     [100000, 0, 0] \<and>
   \<bar>100000 - far_x\<bar> \<le> max (\<bar>far_x\<bar> / 2 ^ 24) (1 / 2 ^ 150) \<and>
   (0::nat) < length quad_face \<and> 3 \<le> length (poly_vertices (quad_face ! 0)) \<and>
   (1::nat) < length (poly_vertices (quad_face ! 0)) - 2 \<and> (2::nat) < 3 \<and>
   length (index (export_buffers exact_runtime quad_face default_smoothingAngle)) = 6 \<and>
   index (export_buffers exact_runtime quad_face default_smoothingAngle) = [0, 2, 3, 1, 4, 5] \<and>
   slot_vertex (export_buffers exact_runtime quad_face default_smoothingAngle) (1, 2)
     < vertex_count (export_buffers exact_runtime quad_face default_smoothingAngle) \<and>
   slot_vertex (export_buffers exact_runtime quad_face default_smoothingAngle) (1, 2) = 5 \<and>
   poly_vertices (quad_face ! 0) ! ([0, 1 + 1, 1 + 2] ! 2) = vec 0 1 0 \<and>
   triple (position (export_buffers exact_runtime quad_face default_smoothingAngle)) 5 =
     [0, 1, 0]"
proof -
  let ?out = "export_buffers exact_runtime quad_face default_smoothingAngle"
  let ?far = "export_buffers binary32_runtime far_triangle default_smoothingAngle"
  have f1: "(0::nat) < length far_triangle"
    and f2: "3 \<le> length (poly_vertices (far_triangle ! 0))"
    and f3: "(0::nat) < length (poly_vertices (far_triangle ! 0)) - 2"
    and fv: "poly_vertices (far_triangle ! 0) ! ([0, 0 + 1, 0 + 2] ! 1) = vec far_x 0 0"
    by (simp_all add: far_triangle_def)
  have f4: "(1::nat) < 3"
    by simp
  have fl: "float32 binary32_runtime = fround"
    by (simp add: binary32_runtime_def)
  have fb: "\<bar>far_x\<bar> < 2 ^ 127"
    by (simp add: far_x_def)
  have t0: "triangle_count (take 0 far_triangle) + 0 = 0"
    by (simp add: triangle_count_def)
  note F = export_fan_triangulation [OF f1 f2 f3 f4, of binary32_runtime default_smoothingAngle,
    unfolded t0 fv]
  have r: "exportThreeGeometry binary32_runtime (Constructor True) far_triangle
             default_smoothingAngle = Inr (Buffers ?far)"
    by (rule F [THEN conjunct1])
  have il: "length (index ?far) = 3"
    using F [THEN conjunct2, THEN conjunct1] by (simp add: far_triangle_def)
  have sv: "slot_vertex ?far (0, 1) < vertex_count ?far"
    by (rule F [THEN conjunct2, THEN conjunct2, THEN conjunct2, THEN conjunct1])
  from F [THEN conjunct2, THEN conjunct2, THEN conjunct2, THEN conjunct2, THEN conjunct1]
  obtain c0 where c0: "c0 \<in> set (corner_instances far_triangle)"
    and h: "hash binary32_runtime (ci_vertex c0) = hash binary32_runtime (vec far_x 0 0)"
    and p: "triple (position ?far) (slot_vertex ?far (0, 1)) =
            map (float32 binary32_runtime) (xyz (ci_vertex c0))"
    and e: "float32 binary32_runtime = fround \<longrightarrow>
            (\<forall>j < 3. \<bar>xyz (ci_vertex c0) ! j\<bar> < 2 ^ 127 \<longrightarrow>
               \<bar>triple (position ?far) (slot_vertex ?far (0, 1)) ! j - xyz (ci_vertex c0) ! j\<bar>
               \<le> max (\<bar>xyz (ci_vertex c0) ! j\<bar> / 2 ^ 24) (1 / 2 ^ 150))"
    by blast
  have cv: "ci_vertex c0 = vec far_x 0 0"
    using c0 h by (auto simp: far_corners corner_def far_hashes)
  have x0: "xyz (vec far_x 0 0) ! 0 = far_x"
    by (simp add: xyz_def vec_def)
  have fp: "triple (position ?far) (slot_vertex ?far (0, 1)) = [100000, 0, 0]"
    using p by (simp add: cv fl xyz_def vec_def fround_far fround_0)
  have "\<bar>triple (position ?far) (slot_vertex ?far (0, 1)) ! 0 - xyz (vec far_x 0 0) ! 0\<bar>
        \<le> max (\<bar>xyz (vec far_x 0 0) ! 0\<bar> / 2 ^ 24) (1 / 2 ^ 150)"
    using e [unfolded cv, rule_format, OF fl, of 0] fb by (simp only: x0)
  then have fe: "\<bar>100000 - far_x\<bar> \<le> max (\<bar>far_x\<bar> / 2 ^ 24) (1 / 2 ^ 150)"
    by (simp only: fp x0 nth_Cons_0)
  have h1: "(0::nat) < length quad_face"
    by (simp add: quad_face_def)
  have h2: "3 \<le> length (poly_vertices (quad_face ! 0))"
    by (simp add: quad_face_def)
  have h3: "(1::nat) < length (poly_vertices (quad_face ! 0)) - 2"
    by (simp add: quad_face_def)
  have h4: "(2::nat) < 3"
    by simp
  note T = export_fan_triangulation [OF h1 h2 h3 h4, of exact_runtime default_smoothingAngle,
    THEN conjunct2]
  have l: "length (index ?out) = 6"
    using T [THEN conjunct1] by (simp add: quad_face_def)
  have i: "index ?out = [0, 2, 3, 1, 4, 5]"
    by (simp only: quad_face_export unit_square_index)
  have s: "slot_vertex ?out (1, 2) < vertex_count ?out"
    using T [THEN conjunct2, THEN conjunct2, THEN conjunct1] by (simp add: triangle_count_def)
  have v: "slot_vertex ?out (1, 2) = 5"
    by (simp add: slot_vertex_def i)
  have pv: "poly_vertices (quad_face ! 0) ! ([0, 1 + 1, 1 + 2] ! 2) = vec 0 1 0"
    by (simp add: quad_face_def)
  have t: "triple (position ?out) 5 = [0, 1, 0]"
    by (simp only: quad_face_export unit_square_position) (simp add: triple_def)
  show ?thesis
    using r f1 f2 f3 f4 fl fv fb il sv fp fe h1 h2 h3 h4 l i s v pv t by blast
qed

text \<open>
  C7. With \<open>CSG\<close> bound to the mesh class the export returns buffers. The output has a
  colour buffer exactly when some input polygon declares a shared colour. When it has one, the buffer holds 3 entries per output vertex, and the vertex of every
  corner of every triangle carries the colour of the triangle's own polygon: the first three
  components of its shared colour, or white \<open>(1, 1, 1)\<close> when the polygon declares none, so that
  coloured and uncoloured polygons coexist in one mesh.
\<close>

theorem export_color_presence:
  "exportThreeGeometry rt (Constructor True) geometry a =
     Inr (Buffers (export_buffers rt geometry a)) \<and>
   (color (export_buffers rt geometry a) = None \<longleftrightarrow>
      (\<forall>p \<in> set geometry. shared_color p = None)) \<and>
   (\<forall>cols. color (export_buffers rt geometry a) = Some cols \<longrightarrow>
      length cols = 3 * vertex_count (export_buffers rt geometry a) \<and>
      (\<forall>q < length geometry. \<forall>x < length (poly_vertices (geometry ! q)) - 2. \<forall>k < 3.
         triple cols (slot_vertex (export_buffers rt geometry a)
                        (triangle_count (take q geometry) + x, k)) =
           map (float32 rt)
             (case shared_color (geometry ! q) of
                None \<Rightarrow> [1, 1, 1]
              | Some c \<Rightarrow> [color0 c, color1 c, color2 c])))"
proof (intro conjI allI impI)
  let ?out = "export_buffers rt geometry a"
  let ?E = "export_emission rt geometry a"
  show "exportThreeGeometry rt (Constructor True) geometry a = Inr (Buffers ?out)"
    by (rule exportThreeGeometry_instance)
  show "color ?out = None \<longleftrightarrow> (\<forall>p \<in> set geometry. shared_color p = None)"
    by (simp add: export_eq)
  fix cols
  assume cols: "color ?out = Some cols"
  then have "cols = map (float32 rt) (concat (map (\<lambda>e. rgb_list (e_colour e)) ?E))"
    unfolding export_eq by (simp split: if_splits)
  then show "length cols = 3 * vertex_count ?out"
    by (simp add: length_concat_rgb emission_length export_lengths)
  fix q x k
  assume q: "q < length geometry" and x: "x < length (poly_vertices (geometry ! q)) - 2"
    and k: "k < (3::nat)"
  let ?p = "geometry ! q"
  let ?t = "triangle_count (take q geometry) + x"
  let ?c = "\<lparr>ci_vertex = poly_vertices ?p ! ([0, x + 1, x + 2] ! k),
             ci_normal = plane_normal ?p, ci_colour = polygon_colour ?p, ci_slot = (?t, k)\<rparr>"
  have "x < fan_size ?p"
    using x by (simp add: fan_size_def)
  with q have "?c \<in> set (corner_instances geometry)"
    using k by (rule corner_instances_member)
  from corner_vertex [OF this, of rt a]
  obtain i where i: "i < length ?E" and v: "slot_vertex ?out (?t, k) = i"
    and col: "e_colour (?E ! i) = polygon_colour ?p"
    by auto
  have "triple cols (slot_vertex ?out (?t, k)) = map (float32 rt) (rgb_list (polygon_colour ?p))"
    using export_color_triple [OF i cols] by (simp add: v col)
  also have "rgb_list (polygon_colour ?p) =
             (case shared_color ?p of None \<Rightarrow> [1, 1, 1] | Some c \<Rightarrow> [color0 c, color1 c, color2 c])"
    by (simp add: polygon_colour_def rgb_list_def split: option.split)
  finally show "triple cols (slot_vertex ?out (?t, k)) =
           map (float32 rt)
             (case shared_color ?p of None \<Rightarrow> [1, 1, 1] | Some c \<Rightarrow> [color0 c, color1 c, color2 c])" .
qed

lemma two_tone_color:
  "color (export_buffers exact_runtime two_tone_square default_smoothingAngle) =
     Some [1 / 2, 0, 0,  1, 1, 1,  1 / 2, 0, 0,  1 / 2, 0, 0,  1, 1, 1,  1, 1, 1]"
proof -
  have "color (export_buffers exact_runtime two_tone_square default_smoothingAngle) =
        Some (map (float32 exact_runtime) (concat (map (\<lambda>e. rgb_list (e_colour e))
          (export_emission exact_runtime two_tone_square default_smoothingAngle))))"
    by (simp add: export_eq) (simp add: two_tone_square_def square_def)
  also have "\<dots> = Some [1 / 2, 0, 0,  1, 1, 1,  1 / 2, 0, 0,  1 / 2, 0, 0,  1, 1, 1,  1, 1, 1]"
    unfolding two_tone_square_def square_emission
    by (simp add: out_vertex_def rgb_list_def shade_def white_def exact_runtime_def)
  finally show ?thesis .
qed

theorem export_color_presence_witness:
  "exportThreeGeometry exact_runtime (Constructor True) two_tone_square default_smoothingAngle =
     Inr (Buffers (export_buffers exact_runtime two_tone_square default_smoothingAngle)) \<and>
   color (export_buffers exact_runtime unit_square default_smoothingAngle) = None \<and>
   color (export_buffers exact_runtime two_tone_square default_smoothingAngle) =
     Some [1 / 2, 0, 0,  1, 1, 1,  1 / 2, 0, 0,  1 / 2, 0, 0,  1, 1, 1,  1, 1, 1] \<and>
   vertex_count (export_buffers exact_runtime two_tone_square default_smoothingAngle) = 6 \<and>
   (1::nat) < length two_tone_square \<and>
   (0::nat) < length (poly_vertices (two_tone_square ! 1)) - 2 \<and> (0::nat) < 3 \<and>
   shared_color (two_tone_square ! 1) = None \<and>
   slot_vertex (export_buffers exact_runtime two_tone_square default_smoothingAngle) (1, 0) = 1 \<and>
   triple [1 / 2, 0, 0,  1, 1, 1,  1 / 2, 0, 0,  1 / 2, 0, 0,  1, 1, 1,  1, 1, 1::real]
     (slot_vertex (export_buffers exact_runtime two_tone_square default_smoothingAngle) (1, 0)) =
     [1, 1, 1]"
proof -
  let ?out = "export_buffers exact_runtime two_tone_square default_smoothingAngle"
  let ?cols = "[1 / 2, 0, 0,  1, 1, 1,  1 / 2, 0, 0,  1 / 2, 0, 0,  1, 1, 1,  1, 1, 1::real]"
  note U = export_color_presence [of exact_runtime unit_square default_smoothingAngle,
    THEN conjunct2]
  note R = export_color_presence [of exact_runtime two_tone_square default_smoothingAngle]
  note T = R [THEN conjunct2]
  have r: "exportThreeGeometry exact_runtime (Constructor True) two_tone_square
             default_smoothingAngle = Inr (Buffers ?out)"
    by (rule R [THEN conjunct1])
  have n: "color (export_buffers exact_runtime unit_square default_smoothingAngle) = None"
    using U [THEN conjunct1] by (simp add: unit_square_def square_def)
  have c: "color ?out = Some ?cols"
    by (rule two_tone_color)
  have q: "(1::nat) < length two_tone_square"
    and x: "(0::nat) < length (poly_vertices (two_tone_square ! 1)) - 2"
    and u: "shared_color (two_tone_square ! 1) = None"
    by (simp_all add: two_tone_square_def square_def)
  have k: "(0::nat) < 3"
    by simp
  note S = T [THEN conjunct2, rule_format, OF c]
  have vc: "vertex_count ?out = 6"
    using S [THEN conjunct1] by simp
  have s: "slot_vertex ?out (1, 0) = 1"
    unfolding two_tone_square_def by (simp add: slot_vertex_def square_index)
  have "triple ?cols (slot_vertex ?out (triangle_count (take 1 two_tone_square) + 0, 0)) =
        map (float32 exact_runtime) [1, 1, 1]"
    using S [THEN conjunct2, rule_format, OF q x k] u by simp
  moreover have "triangle_count (take 1 two_tone_square) + 0 = 1"
    by (simp add: two_tone_square_def square_def triangle_count_def fan_size_def)
  ultimately have t: "triple ?cols (slot_vertex ?out (1, 0)) = [1, 1, 1]"
    by (simp add: exact_runtime_def)
  show ?thesis
    using r n c vc q x k u s t by blast
qed

lemma pi_ge_3: "3 \<le> pi"
proof -
  have "sin (pi / 6) \<le> pi / 6"
    by (rule sin_x_le_x) simp
  then show ?thesis
    by (simp add: sin_30)
qed

lemma default_angle_bounds: "2 / 3 \<le> default_smoothingAngle \<and> default_smoothingAngle < 8 / 9"
  using pi_ge_3 pi_less_4 by (simp add: default_smoothingAngle_def)

lemma sqrt3_sq: "sqrt 3 * sqrt 3 = 3"
  by simp

lemma sqrt3_bounds: "0 < sqrt 3 \<and> sqrt 3 < 2"
proof -
  have "sqrt 3 < sqrt 4"
    by (simp only: real_sqrt_less_iff)
  then show ?thesis by simp
qed

lemma sqrt3_lower: "- 2 \<le> sqrt 3"
  using real_sqrt_ge_zero [of 3] by linarith

lemma arccos_half: "arccos (1 / 2) = pi / 3"
  using arccos_cos [of "pi / 3"] by (simp add: cos_60)

lemma arccos_sqrt3_half: "arccos (sqrt 3 / 2) = pi / 6"
  using arccos_cos [of "pi / 6"] by (simp add: cos_30)

lemma fan_angles:
  "exact_angleTo (vec 1 0 0) (vec (sqrt 3 / 2) (1 / 2) 0) = pi / 6"
  "exact_angleTo (vec 1 0 0) (vec (1 / 2) (sqrt 3 / 2) 0) = pi / 3"
  "exact_angleTo (vec (sqrt 3 / 2) (1 / 2) 0) (vec (1 / 2) (sqrt 3 / 2) 0) = pi / 6"
  using sqrt3_bounds sqrt3_lower
  by (simp_all add: exact_angleTo_def dot_def vec_def arccos_half arccos_sqrt3_half
      min_def max_def field_simps)


lemma fan_within:
  "within_angle exact_runtime default_smoothingAngle fan_normals 0 (Suc 0)"
  "\<not> within_angle exact_runtime default_smoothingAngle fan_normals 0 2"
  "within_angle exact_runtime default_smoothingAngle fan_normals (Suc 0) 2"
  by (simp_all add: within_angle_def exact_runtime_def fan_normals_def fan_angles
      default_smoothingAngle_def)

lemma fan_groups:
  "group_normals exact_runtime default_smoothingAngle fan_normals = [[0, 1], [2]]"
proof -
  have "[0..<length fan_normals] = [0, Suc 0, 2]"
    by (simp add: fan_normals_def upt_rec)
  then show ?thesis
    by (simp add: group_normals_greedy fan_within)
qed

text \<open>
  C3. With \<open>CSG\<close> bound to the mesh class the export returns buffers. The groups of a
  bucket are the greedy groups over its corner instances, which the bucket lists in insertion
  order: the lowest ungrouped index seeds a group, each later ungrouped
  index joins it exactly when the angle between its normal and the seed's is at most the
  smoothing angle, and nothing is tested against another member. Every vertex emitted for a
  member of a group carries the normalised sum of the normals of the group's members. The
  default smoothing angle is 40 degrees in radians.
\<close>

theorem smoothing_groups_greedy:
  "exportThreeGeometry rt (Constructor True) geometry a =
     Inr (Buffers (export_buffers rt geometry a)) \<and>
   group_normals rt a normals = greedy_groups (within_angle rt a normals) [0..<length normals] \<and>
   (\<forall>i j. within_angle rt a normals i j \<longleftrightarrow>
            vector3_angleTo rt (normals ! i) (normals ! j) \<le> a) \<and>
   (\<forall>hb \<in> set (vertexMap (build_buckets rt geometry)).
      b_normals (snd hb) =
        map ci_normal (filter (\<lambda>c. hash rt (ci_vertex c) = fst hb) (corner_instances geometry)) \<and>
      (\<forall>g \<in> set (group_normals rt a (b_normals (snd hb))). \<forall>j \<in> set g.
         triple (normal (export_buffers rt geometry a))
           (slot_vertex (export_buffers rt geometry a) (b_faces (snd hb) ! j)) =
         map (float32 rt)
           (xyz (vector3_normalize rt
                   (foldl (\<lambda>s m. vector3_add rt s (b_normals (snd hb) ! m)) zero_vector g))))) \<and>
   default_smoothingAngle = 40 * pi / 180 \<and>
   2 / 3 \<le> default_smoothingAngle \<and> default_smoothingAngle < 8 / 9"
proof (intro conjI allI ballI)
  let ?out = "export_buffers rt geometry a"
  let ?E = "export_emission rt geometry a"
  show "exportThreeGeometry rt (Constructor True) geometry a = Inr (Buffers ?out)"
    by (rule exportThreeGeometry_instance)
  show "group_normals rt a normals = greedy_groups (within_angle rt a normals) [0..<length normals]"
    by (rule group_normals_greedy)
  show "within_angle rt a normals i j \<longleftrightarrow> vector3_angleTo rt (normals ! i) (normals ! j) \<le> a"
    for i j
    by (simp add: within_angle_def)
  show "default_smoothingAngle = 40 * pi / 180"
    by (simp add: default_smoothingAngle_def)
  show "2 / 3 \<le> default_smoothingAngle" and "default_smoothingAngle < 8 / 9"
    using default_angle_bounds by simp_all
  fix hb
  assume hb: "hb \<in> set (vertexMap (build_buckets rt geometry))"
  show "b_normals (snd hb) =
        map ci_normal (filter (\<lambda>c. hash rt (ci_vertex c) = fst hb) (corner_instances geometry))"
    using vertexMap_member [OF hb]
    by (simp add: collect_fields same_key_def weld_key_def)
  fix g j
  assume g: "g \<in> set (group_normals rt a (b_normals (snd hb)))" and j: "j \<in> set g"
  from group_member_vertex [OF hb g j]
  obtain i where i: "i < length ?E" and v: "slot_vertex ?out (b_faces (snd hb) ! j) = i"
    and e: "?E ! i = \<lparr>e_position = b_vertex (snd hb),
              e_normal = average_normal rt (b_normals (snd hb)) g,
              e_colour = b_colours (snd hb) ! j, e_slot = b_faces (snd hb) ! j\<rparr>"
    by blast
  show "triple (normal ?out) (slot_vertex ?out (b_faces (snd hb) ! j)) =
         map (float32 rt)
           (xyz (vector3_normalize rt
                   (foldl (\<lambda>s m. vector3_add rt s (b_normals (snd hb) ! m)) zero_vector g)))"
    using export_normal_triple [OF i] by (simp add: v e average_normal_def)
qed

theorem smoothing_groups_greedy_witness:
  "exportThreeGeometry exact_runtime (Constructor True) unit_square default_smoothingAngle =
     Inr (Buffers (export_buffers exact_runtime unit_square default_smoothingAngle)) \<and>
   group_normals exact_runtime default_smoothingAngle fan_normals = [[0, 1], [2]] \<and>
   greedy_groups (within_angle exact_runtime default_smoothingAngle fan_normals) [0, 1, 2] =
     [[0, 1], [2]] \<and>
   vector3_angleTo exact_runtime (fan_normals ! 0) (fan_normals ! 1) = pi / 6 \<and>
   vector3_angleTo exact_runtime (fan_normals ! 0) (fan_normals ! 2) = pi / 3 \<and>
   vector3_angleTo exact_runtime (fan_normals ! 1) (fan_normals ! 2) = pi / 6 \<and>
   pi / 6 \<le> default_smoothingAngle \<and> \<not> pi / 3 \<le> default_smoothingAngle \<and>
   (''0.0000_0.0000_0.0000'', collect [corner (vec 0 0 0) white (0, 0), corner (vec 0 0 0) white (1, 0)])
     \<in> set (vertexMap (build_buckets exact_runtime unit_square)) \<and>
   [0, 1] \<in> set (group_normals exact_runtime default_smoothingAngle [vec 0 0 1, vec 0 0 1]) \<and>
   slot_vertex (export_buffers exact_runtime unit_square default_smoothingAngle) (1, 0) = 1 \<and>
   vector3_normalize exact_runtime
     (vector3_add exact_runtime (vector3_add exact_runtime zero_vector (vec 0 0 1)) (vec 0 0 1)) =
     vec 0 0 1 \<and>
   triple (normal (export_buffers exact_runtime unit_square default_smoothingAngle)) 1 =
     [0, 0, 1]"
proof -
  let ?out = "export_buffers exact_runtime unit_square default_smoothingAngle"
  let ?b = "collect [corner (vec 0 0 0) white (0, 0), corner (vec 0 0 0) white (1, 0)]"
  note R = smoothing_groups_greedy [of exact_runtime unit_square default_smoothingAngle fan_normals]
  note F = R [THEN conjunct2]
  have r: "exportThreeGeometry exact_runtime (Constructor True) unit_square default_smoothingAngle =
     Inr (Buffers ?out)"
    by (rule R [THEN conjunct1])
  have len: "[0..<length fan_normals] = [0, 1, 2]"
    by (simp add: fan_normals_def upt_rec)
  have a1: "group_normals exact_runtime default_smoothingAngle fan_normals = [[0, 1], [2]]"
    by (rule fan_groups)
  have a2: "greedy_groups (within_angle exact_runtime default_smoothingAngle fan_normals) [0, 1, 2] =
     [[0, 1], [2]]"
    using F [THEN conjunct1] by (simp only: a1 len)
  have a3: "vector3_angleTo exact_runtime (fan_normals ! 0) (fan_normals ! 1) = pi / 6"
    "vector3_angleTo exact_runtime (fan_normals ! 0) (fan_normals ! 2) = pi / 3"
    "vector3_angleTo exact_runtime (fan_normals ! 1) (fan_normals ! 2) = pi / 6"
    by (simp_all add: exact_runtime_def fan_normals_def fan_angles)
  have a4: "pi / 6 \<le> default_smoothingAngle" "\<not> pi / 3 \<le> default_smoothingAngle"
    by (simp_all add: default_smoothingAngle_def)
  have hb: "(''0.0000_0.0000_0.0000'', ?b) \<in> set (vertexMap (build_buckets exact_runtime unit_square))"
    by (simp add: unit_square_vertexMap shade_None)
  have g: "[0, 1] \<in> set (group_normals exact_runtime default_smoothingAngle [vec 0 0 1, vec 0 0 1])"
    by (simp add: groups_two)
  have g': "[0, 1] \<in> set (group_normals exact_runtime default_smoothingAngle
              (b_normals (snd (''0.0000_0.0000_0.0000'', ?b))))"
    using g by (simp add: collect_fields corner_def)
  have s1: "slot_vertex ?out (1, 0) = 1"
    by (simp add: slot_vertex_def unit_square_index)
  have avg: "vector3_normalize exact_runtime
     (vector3_add exact_runtime (vector3_add exact_runtime zero_vector (vec 0 0 1)) (vec 0 0 1)) =
     vec 0 0 1"
    using average_two by (simp add: average_normal_def)
  note G = F [THEN conjunct2, THEN conjunct2, THEN conjunct1, rule_format, OF hb,
    THEN conjunct2, rule_format, OF g', of 1]
  have n1: "triple (normal ?out) 1 = [0, 0, 1]"
    using G s1 avg by (simp add: collect_fields corner_def xyz_def vec_def exact_runtime_def)
  show ?thesis
    using r a1 a2 a3 a4 hb g s1 avg n1 by blast
qed

lemma digit_char: "d < 10 \<Longrightarrow> digit d \<in> set ''0123456789''"
proof -
  assume "d < 10"
  then have "d < length ''0123456789''" by simp
  then show ?thesis unfolding digit_def by (rule nth_mem)
qed

lemma digits_of_chars: "set (digits_of n) \<subseteq> set ''0123456789''"
proof (induction n rule: digits_of.induct)
  case (1 n)
  show ?case
  proof (cases "n < 10")
    case True
    then show ?thesis
      using digit_char [of n] by (subst digits_of.simps) simp
  next
    case False
    have "n mod 10 < 10" by simp
    then have "digit (n mod 10) \<in> set ''0123456789''" by (rule digit_char)
    then show ?thesis
      using False "1.IH" by (subst digits_of.simps) simp
  qed
qed

lemma digits_of_no_underscore: "CHR ''_'' \<notin> set (digits_of n)"
  using digits_of_chars [of n] by auto

lemma digits_of_nonempty: "digits_of n \<noteq> []"
  by (subst digits_of.simps) simp

lemma toFixed_no_underscore:
  assumes "\<forall>x. CHR ''_'' \<notin> set (numberToString rt x)"
  shows "CHR ''_'' \<notin> set (toFixed rt x f)"
  using assms
  by (auto simp: toFixed_def Let_def digits_of_no_underscore
      dest!: in_set_takeD in_set_dropD)

lemma split_at_underscore:
  assumes "CHR ''_'' \<notin> set a" and "CHR ''_'' \<notin> set a'"
    and "a @ CHR ''_'' # r = a' @ CHR ''_'' # r'"
  shows "a = a' \<and> r = r'"
  using assms
proof (induction a arbitrary: a')
  case Nil
  then show ?case by (cases a') auto
next
  case (Cons c a)
  then show ?case by (cases a') auto
qed

lemma hash_eq_iff:
  assumes "\<forall>x. CHR ''_'' \<notin> set (numberToString rt x)"
  shows "hash rt v = hash rt w \<longleftrightarrow>
           toFixed rt (vx v) 4 = toFixed rt (vx w) 4 \<and>
           toFixed rt (vy v) 4 = toFixed rt (vy w) 4 \<and>
           toFixed rt (vz v) 4 = toFixed rt (vz w) 4"
proof
  assume eq: "hash rt v = hash rt w"
  note nu = toFixed_no_underscore [OF assms]
  from eq have 1: "toFixed rt (vx v) 4 @ CHR ''_'' # (toFixed rt (vy v) 4 @ CHR ''_'' # toFixed rt (vz v) 4) =
                   toFixed rt (vx w) 4 @ CHR ''_'' # (toFixed rt (vy w) 4 @ CHR ''_'' # toFixed rt (vz w) 4)"
    by (simp add: hash_def VERTEX_PRECISION_def)
  from split_at_underscore [OF nu nu 1]
  have x: "toFixed rt (vx v) 4 = toFixed rt (vx w) 4"
    and 2: "toFixed rt (vy v) 4 @ CHR ''_'' # toFixed rt (vz v) 4 =
            toFixed rt (vy w) 4 @ CHR ''_'' # toFixed rt (vz w) 4"
    by simp_all
  from split_at_underscore [OF nu nu 2] x
  show "toFixed rt (vx v) 4 = toFixed rt (vx w) 4 \<and>
        toFixed rt (vy v) 4 = toFixed rt (vy w) 4 \<and>
        toFixed rt (vz v) 4 = toFixed rt (vz w) 4"
    by simp
next
  assume "toFixed rt (vx v) 4 = toFixed rt (vx w) 4 \<and>
          toFixed rt (vy v) 4 = toFixed rt (vy w) 4 \<and>
          toFixed rt (vz v) 4 = toFixed rt (vz w) 4"
  then show "hash rt v = hash rt w"
    by (simp add: hash_def VERTEX_PRECISION_def)
qed

lemma hash_has_underscore: "CHR ''_'' \<in> set (hash rt v)"
  by (simp add: hash_def)

lemma toFixed_shape:
  assumes "\<bar>x\<bar> < 10 ^ 21"
  shows "\<exists>ip fp. toFixed rt x 4 = (if x < 0 then ''-'' else []) @ ip @ ''.'' @ fp \<and>
                  ip \<noteq> [] \<and> length fp = 4 \<and> set (ip @ fp) \<subseteq> set ''0123456789''"
proof -
  let ?n = "nat \<lfloor>(if x < 0 then - x else x) * 10 ^ 4 + 1 / 2\<rfloor>"
  let ?m = "digits_of ?n"
  let ?m0 = "if length ?m \<le> 4 then replicate (4 + 1 - length ?m) CHR ''0'' @ ?m else ?m"
  have small: "\<not> 10 ^ 21 \<le> (if x < 0 then - x else x)"
    using assms by (auto simp: abs_if split: if_splits)
  have len: "4 < length ?m0"
    by auto
  have chars: "set ?m0 \<subseteq> set ''0123456789''"
    using digits_of_chars [of ?n] by auto
  have eq: "toFixed rt x 4 = (if x < 0 then ''-'' else []) @
              take (length ?m0 - 4) ?m0 @ ''.'' @ drop (length ?m0 - 4) ?m0"
    using small by (simp add: toFixed_def Let_def)
  have "take (length ?m0 - 4) ?m0 \<noteq> []"
    using len by auto
  moreover have "length (drop (length ?m0 - 4) ?m0) = 4"
    using len by auto
  moreover have "set (take (length ?m0 - 4) ?m0 @ drop (length ?m0 - 4) ?m0) \<subseteq> set ''0123456789''"
    using chars by (simp only: append_take_drop_id)
  ultimately show ?thesis
    using eq by blast
qed

lemma bucket_of_slot:
  assumes "c \<in> set (corner_instances geometry)"
    and "hb \<in> set (vertexMap (build_buckets rt geometry))"
  shows "ci_slot c \<in> set (b_faces (snd hb)) \<longleftrightarrow> fst hb = hash rt (ci_vertex c)"
proof
  let ?cs = "corner_instances geometry"
  have b: "snd hb = collect (same_key rt ?cs (fst hb))"
    using vertexMap_member [OF assms(2)] by simp
  {
    assume "ci_slot c \<in> set (b_faces (snd hb))"
    then obtain c' where c': "c' \<in> set (same_key rt ?cs (fst hb))" and s: "ci_slot c' = ci_slot c"
      by (auto simp: b collect_fields)
    then have "c' \<in> set ?cs" and k: "weld_key rt c' = fst hb"
      by (simp_all add: same_key_member)
    then have "c' = c"
      using assms(1) s by (intro corner_slots_inj)
    then show "fst hb = hash rt (ci_vertex c)"
      using k by (simp add: weld_key_def)
  }
  {
    assume "fst hb = hash rt (ci_vertex c)"
    then have "c \<in> set (same_key rt ?cs (fst hb))"
      using assms(1) by (simp add: same_key_member weld_key_def)
    then show "ci_slot c \<in> set (b_faces (snd hb))"
      by (simp add: b collect_fields)
  }
qed

lemma toFixed_below_one:
  assumes "0 \<le> x" and "x < 10 ^ 21" and "nat \<lfloor>x * 10 ^ 4 + 1 / 2\<rfloor> = n" and "n < 10"
  shows "toFixed rt x 4 = ''0.000'' @ [digit n]"
proof -
  have d: "digits_of n = [digit n]"
    using assms(4) by (subst digits_of.simps) simp
  have "\<not> x < 0" and "\<not> 10 ^ 21 \<le> x"
    using assms(1,2) by simp_all
  moreover have "nat \<lfloor>(if x < 0 then - x else x) * 10 ^ 4 + 1 / 2\<rfloor> = n"
    using assms(1,3) by simp
  ultimately show ?thesis
    unfolding toFixed_def Let_def
    by (simp only: d) (simp add: replicate_numeral)
qed

lemma toFixed_samples:
  "toFixed rt (4 / 100000) 4 = ''0.0000''"
  "toFixed rt (6 / 100000) 4 = ''0.0001''"
  "toFixed rt (14 / 100000) 4 = ''0.0001''"
proof -
  have "toFixed rt (4 / 100000) 4 = ''0.000'' @ [digit 0]"
    by (rule toFixed_below_one) simp_all
  then show "toFixed rt (4 / 100000) 4 = ''0.0000''"
    by (simp add: digit_def)
  have "toFixed rt (6 / 100000) 4 = ''0.000'' @ [digit 1]"
    by (rule toFixed_below_one) simp_all
  then show "toFixed rt (6 / 100000) 4 = ''0.0001''"
    by (simp add: digit_def)
  have "toFixed rt (14 / 100000) 4 = ''0.000'' @ [digit 1]"
    by (rule toFixed_below_one) simp_all
  then show "toFixed rt (14 / 100000) 4 = ''0.0001''"
    by (simp add: digit_def)
qed

text \<open>
  C4. With \<open>CSG\<close> bound to the mesh class the export returns buffers. Provided the
  runtime's rendering of huge numbers contains no underscore (it never does), two corner instances are filed in the same bucket if and only if the renderings of
  their \<open>x\<close>, of their \<open>y\<close> and of their \<open>z\<close> coordinates by \<open>toFixed(4)\<close> are equal strings; and
  two corner instances for which one of the renderings differs resolve to different output
  vertices. Below \<open>10^21\<close> in magnitude a rendering is an optional sign, an integer part, a
  point and exactly 4 fractional digits.
\<close>

theorem weld_bucket_iff_same_rendering:
  assumes "\<forall>x. CHR ''_'' \<notin> set (numberToString rt x)"
    and "c1 \<in> set (corner_instances geometry)" and "c2 \<in> set (corner_instances geometry)"
  shows "exportThreeGeometry rt (Constructor True) geometry a =
          Inr (Buffers (export_buffers rt geometry a)) \<and>
         ((\<exists>hb \<in> set (vertexMap (build_buckets rt geometry)).
             ci_slot c1 \<in> set (b_faces (snd hb)) \<and> ci_slot c2 \<in> set (b_faces (snd hb))) \<longleftrightarrow>
          toFixed rt (vx (ci_vertex c1)) 4 = toFixed rt (vx (ci_vertex c2)) 4 \<and>
          toFixed rt (vy (ci_vertex c1)) 4 = toFixed rt (vy (ci_vertex c2)) 4 \<and>
          toFixed rt (vz (ci_vertex c1)) 4 = toFixed rt (vz (ci_vertex c2)) 4) \<and>
         (\<not> (toFixed rt (vx (ci_vertex c1)) 4 = toFixed rt (vx (ci_vertex c2)) 4 \<and>
             toFixed rt (vy (ci_vertex c1)) 4 = toFixed rt (vy (ci_vertex c2)) 4 \<and>
             toFixed rt (vz (ci_vertex c1)) 4 = toFixed rt (vz (ci_vertex c2)) 4) \<longrightarrow>
          slot_vertex (export_buffers rt geometry a) (ci_slot c1) \<noteq>
          slot_vertex (export_buffers rt geometry a) (ci_slot c2)) \<and>
         (\<forall>x. \<bar>x\<bar> < 10 ^ 21 \<longrightarrow>
            (\<exists>ip fp. toFixed rt x 4 = (if x < 0 then ''-'' else []) @ ip @ ''.'' @ fp \<and>
                     ip \<noteq> [] \<and> length fp = 4 \<and> set (ip @ fp) \<subseteq> set ''0123456789''))"
proof (intro conjI impI allI)
  let ?out = "export_buffers rt geometry a"
  let ?E = "export_emission rt geometry a"
  let ?same = "toFixed rt (vx (ci_vertex c1)) 4 = toFixed rt (vx (ci_vertex c2)) 4 \<and>
          toFixed rt (vy (ci_vertex c1)) 4 = toFixed rt (vy (ci_vertex c2)) 4 \<and>
          toFixed rt (vz (ci_vertex c1)) 4 = toFixed rt (vz (ci_vertex c2)) 4"
  have keys: "hash rt (ci_vertex c1) = hash rt (ci_vertex c2) \<longleftrightarrow> ?same"
    using assms(1) by (rule hash_eq_iff)
  show "exportThreeGeometry rt (Constructor True) geometry a = Inr (Buffers ?out)"
    by (rule exportThreeGeometry_instance)
  show "(\<exists>hb \<in> set (vertexMap (build_buckets rt geometry)).
             ci_slot c1 \<in> set (b_faces (snd hb)) \<and> ci_slot c2 \<in> set (b_faces (snd hb))) \<longleftrightarrow> ?same"
  proof
    assume "\<exists>hb \<in> set (vertexMap (build_buckets rt geometry)).
             ci_slot c1 \<in> set (b_faces (snd hb)) \<and> ci_slot c2 \<in> set (b_faces (snd hb))"
    then obtain hb where hb: "hb \<in> set (vertexMap (build_buckets rt geometry))"
      and s1: "ci_slot c1 \<in> set (b_faces (snd hb))" and s2: "ci_slot c2 \<in> set (b_faces (snd hb))"
      by blast
    have "fst hb = hash rt (ci_vertex c1)" "fst hb = hash rt (ci_vertex c2)"
      using bucket_of_slot [OF assms(2) hb] bucket_of_slot [OF assms(3) hb] s1 s2 by simp_all
    then show ?same
      using keys by simp
  next
    assume ?same
    then have k: "hash rt (ci_vertex c1) = hash rt (ci_vertex c2)"
      using keys by simp
    from corner_bucket [OF assms(2), of rt]
    obtain hb where hb: "hb \<in> set (vertexMap (build_buckets rt geometry))"
      and h: "fst hb = hash rt (ci_vertex c1)"
      by blast
    have "ci_slot c1 \<in> set (b_faces (snd hb))" "ci_slot c2 \<in> set (b_faces (snd hb))"
      using bucket_of_slot [OF assms(2) hb] bucket_of_slot [OF assms(3) hb] h k by simp_all
    with hb show "\<exists>hb \<in> set (vertexMap (build_buckets rt geometry)).
             ci_slot c1 \<in> set (b_faces (snd hb)) \<and> ci_slot c2 \<in> set (b_faces (snd hb))"
      by blast
  qed
  show "slot_vertex ?out (ci_slot c1) \<noteq> slot_vertex ?out (ci_slot c2)" if "\<not> ?same"
  proof
    assume eq: "slot_vertex ?out (ci_slot c1) = slot_vertex ?out (ci_slot c2)"
    from corner_vertex [OF assms(2), of rt a]
    have s1: "e_slot (?E ! slot_vertex ?out (ci_slot c1)) = ci_slot c1"
      by auto
    from corner_vertex [OF assms(3), of rt a]
    have s2: "e_slot (?E ! slot_vertex ?out (ci_slot c2)) = ci_slot c2"
      by auto
    from s1 have s1': "e_slot (?E ! slot_vertex ?out (ci_slot c2)) = ci_slot c1"
      by (simp only: eq)
    have "ci_slot c1 = ci_slot c2"
      by (rule trans [OF s1' [symmetric] s2])
    with assms(2,3) have "c1 = c2"
      by (rule corner_slots_inj)
    with that show False
      by simp
  qed
  show "\<exists>ip fp. toFixed rt x 4 = (if x < 0 then ''-'' else []) @ ip @ ''.'' @ fp \<and>
                     ip \<noteq> [] \<and> length fp = 4 \<and> set (ip @ fp) \<subseteq> set ''0123456789''"
    if "\<bar>x\<bar> < 10 ^ 21" for x
    using that by (rule toFixed_shape)
qed

theorem weld_bucket_iff_same_rendering_witness:
  "exportThreeGeometry exact_runtime (Constructor True) unit_square default_smoothingAngle =
     Inr (Buffers (export_buffers exact_runtime unit_square default_smoothingAngle)) \<and>
   CHR ''_'' \<notin> set ''1e+21'' \<and>
   corner (vec 0 0 0) white (0, 0) \<in> set (corner_instances unit_square) \<and>
   corner (vec 0 0 0) white (1, 0) \<in> set (corner_instances unit_square) \<and>
   corner (vec 1 0 0) white (0, 1) \<in> set (corner_instances unit_square) \<and>
   toFixed exact_runtime 0 4 = ''0.0000'' \<and> toFixed exact_runtime 1 4 = ''1.0000'' \<and>
   (''0.0000_0.0000_0.0000'', collect [corner (vec 0 0 0) white (0, 0), corner (vec 0 0 0) white (1, 0)])
     \<in> set (vertexMap (build_buckets exact_runtime unit_square)) \<and>
   slot_vertex (export_buffers exact_runtime unit_square default_smoothingAngle) (0, 0) \<noteq>
   slot_vertex (export_buffers exact_runtime unit_square default_smoothingAngle) (0, 1) \<and>
   toFixed exact_runtime (4 / 100000) 4 = ''0.0000'' \<and>
   toFixed exact_runtime (6 / 100000) 4 = ''0.0001'' \<and>
   toFixed exact_runtime (14 / 100000) 4 = ''0.0001''"
proof -
  let ?out = "export_buffers exact_runtime unit_square default_smoothingAngle"
  let ?c1 = "corner (vec 0 0 0) white (0, 0)"
  let ?c2 = "corner (vec 0 0 0) white (1, 0)"
  let ?c3 = "corner (vec 1 0 0) white (0, 1)"
  have nu: "\<forall>x. CHR ''_'' \<notin> set (numberToString exact_runtime x)"
    by (simp add: exact_runtime_def)
  have nu': "CHR ''_'' \<notin> set ''1e+21''"
    by simp
  have m1: "?c1 \<in> set (corner_instances unit_square)"
    and m2: "?c2 \<in> set (corner_instances unit_square)"
    and m3: "?c3 \<in> set (corner_instances unit_square)"
    by (simp_all add: unit_square_corners shade_None)
  note R = weld_bucket_iff_same_rendering [OF nu m1 m3, of default_smoothingAngle]
  note T13 = R [THEN conjunct2]
  have r: "exportThreeGeometry exact_runtime (Constructor True) unit_square default_smoothingAngle =
     Inr (Buffers ?out)"
    by (rule R [THEN conjunct1])
  have hb: "(''0.0000_0.0000_0.0000'', collect [?c1, ?c2])
     \<in> set (vertexMap (build_buckets exact_runtime unit_square))"
    by (simp add: unit_square_vertexMap shade_None)
  have "\<not> (toFixed exact_runtime (vx (ci_vertex ?c1)) 4 = toFixed exact_runtime (vx (ci_vertex ?c3)) 4 \<and>
            toFixed exact_runtime (vy (ci_vertex ?c1)) 4 = toFixed exact_runtime (vy (ci_vertex ?c3)) 4 \<and>
            toFixed exact_runtime (vz (ci_vertex ?c1)) 4 = toFixed exact_runtime (vz (ci_vertex ?c3)) 4)"
    by (simp add: corner_def vec_def toFixed_0 toFixed_1)
  with T13 [THEN conjunct2, THEN conjunct1]
  have "slot_vertex ?out (ci_slot ?c1) \<noteq> slot_vertex ?out (ci_slot ?c3)"
    by blast
  then have d: "slot_vertex ?out (0, 0) \<noteq> slot_vertex ?out (0, 1)"
    by (simp add: corner_def)
  show ?thesis
    using r nu' m1 m2 m3 toFixed_0 [of exact_runtime] toFixed_1 [of exact_runtime] hb d
      toFixed_samples [of exact_runtime] by blast
qed

lemma concat_map_concat:
  "concat (map f (concat xss)) = concat (map (\<lambda>xs. concat (map f xs)) xss)"
  by (induction xss) simp_all

lemma export_same_corners:
  assumes "corner_instances geometry' = corner_instances geometry"
    and "(\<exists>p \<in> set geometry'. shared_color p \<noteq> None) \<longleftrightarrow>
         (\<exists>p \<in> set geometry. shared_color p \<noteq> None)"
  shows "export_buffers rt geometry' a = export_buffers rt geometry a"
proof -
  have e: "export_emission rt geometry' a = export_emission rt geometry a"
    by (simp only: export_emission_eq assms(1))
  have "3 * triangle_count geometry' = 3 * triangle_count geometry"
    using arg_cong [OF corner_slots [of geometry'], of length]
      arg_cong [OF corner_slots [of geometry], of length] assms(1)
    by (simp add: length_concat o_def sum_list_triv)
  then have t: "triangle_count geometry' = triangle_count geometry"
    by simp
  show ?thesis
    unfolding export_eq e t using assms(2) by simp
qed

text \<open>
  C8. With \<open>CSG\<close> bound to the mesh class the export returns buffers, and these are a function
  of the polygons, in their order, and of the smoothing angle: the export reads nothing else of
  the mesh than what its corner instances, in creation order, and the presence of a shared
  colour tell, so that two meshes that agree on these, and all the more two equal meshes, give
  equal position, normal, colour and index buffers for the same smoothing angle. The buckets
  are visited in the order in which their keys were first inserted, that is the order of first
  occurrence among the weld keys of the corner instances in creation order; no key is an
  integer-like property name (each contains an underscore), which is what would make the
  enumeration deviate from insertion order. Each bucket lists its corners in insertion order,
  and the vertices are numbered bucket by bucket in that order.
\<close>

theorem export_bucket_order:
  "exportThreeGeometry rt (Constructor True) geometry a =
     Inr (Buffers (export_buffers rt geometry a)) \<and>
   map fst (vertexMap (build_buckets rt geometry)) =
     first_occurrences (map (\<lambda>c. hash rt (ci_vertex c)) (corner_instances geometry)) \<and>
   distinct (map fst (vertexMap (build_buckets rt geometry))) \<and>
   (\<forall>hb \<in> set (vertexMap (build_buckets rt geometry)).
      CHR ''_'' \<in> set (fst hb) \<and>
      b_faces (snd hb) =
        map ci_slot (filter (\<lambda>c. hash rt (ci_vertex c) = fst hb) (corner_instances geometry))) \<and>
   position (export_buffers rt geometry a) =
     map (float32 rt)
       (concat (map (\<lambda>hb. concat (map (\<lambda>e. xyz (e_position e)) (bucket_emission rt a (snd hb))))
                  (vertexMap (build_buckets rt geometry)))) \<and>
   index (export_buffers rt geometry a) =
     flatten_faces
       (write_slots (replicate (triangle_count geometry) [0, 0, 0]) 0
          (concat (map (\<lambda>hb. map e_slot (bucket_emission rt a (snd hb)))
                     (vertexMap (build_buckets rt geometry))))) \<and>
   (\<forall>geometry'.
      corner_instances geometry' = corner_instances geometry \<and>
      ((\<exists>p \<in> set geometry'. shared_color p \<noteq> None) \<longleftrightarrow>
       (\<exists>p \<in> set geometry. shared_color p \<noteq> None)) \<longrightarrow>
      exportThreeGeometry rt (Constructor True) geometry' a =
      exportThreeGeometry rt (Constructor True) geometry a)"
proof (intro conjI ballI allI impI)
  let ?vmap = "vertexMap (build_buckets rt geometry)"
  let ?cs = "corner_instances geometry"
  have w: "weld_key rt = (\<lambda>c. hash rt (ci_vertex c))"
    by (rule ext) (simp add: weld_key_def)
  show keys: "map fst ?vmap = first_occurrences (map (\<lambda>c. hash rt (ci_vertex c)) ?cs)"
    by (simp add: build_buckets_vertexMap group_by_key_def o_def w)
  show "distinct (map fst ?vmap)"
    unfolding keys by (rule distinct_first_occurrences)
  show "position (export_buffers rt geometry a) =
     map (float32 rt)
       (concat (map (\<lambda>hb. concat (map (\<lambda>e. xyz (e_position e)) (bucket_emission rt a (snd hb))))
                  ?vmap))"
    by (simp add: export_eq export_emission_def emission_def concat_map_concat o_def)
  show "index (export_buffers rt geometry a) =
     flatten_faces
       (write_slots (replicate (triangle_count geometry) [0, 0, 0]) 0
          (concat (map (\<lambda>hb. map e_slot (bucket_emission rt a (snd hb))) ?vmap)))"
    by (simp add: export_eq export_emission_def emission_def map_concat o_def)
  show "exportThreeGeometry rt (Constructor True) geometry a =
        Inr (Buffers (export_buffers rt geometry a))"
    by (rule exportThreeGeometry_instance)
  show "exportThreeGeometry rt (Constructor True) geometry' a =
        exportThreeGeometry rt (Constructor True) geometry a"
    if "corner_instances geometry' = corner_instances geometry \<and>
      ((\<exists>p \<in> set geometry'. shared_color p \<noteq> None) \<longleftrightarrow>
       (\<exists>p \<in> set geometry. shared_color p \<noteq> None))" for geometry'
    using that export_same_corners [of geometry' geometry rt a]
    by (simp only: exportThreeGeometry_instance)
  fix hb
  assume hb: "hb \<in> set ?vmap"
  have "fst hb \<in> set (map (weld_key rt) ?cs)"
    using vertexMap_member [OF hb] by simp
  then show "CHR ''_'' \<in> set (fst hb)"
    by (auto simp: weld_key_def hash_has_underscore)
  show "b_faces (snd hb) = map ci_slot (filter (\<lambda>c. hash rt (ci_vertex c) = fst hb) ?cs)"
    using vertexMap_member [OF hb] by (simp add: collect_fields same_key_def weld_key_def)
qed

theorem export_bucket_order_witness:
  "exportThreeGeometry exact_runtime (Constructor True) unit_square default_smoothingAngle =
     Inr (Buffers (export_buffers exact_runtime unit_square default_smoothingAngle)) \<and>
   corner_instances quad_face = corner_instances unit_square \<and>
   exportThreeGeometry exact_runtime (Constructor True) quad_face default_smoothingAngle =
     exportThreeGeometry exact_runtime (Constructor True) unit_square default_smoothingAngle \<and>
   map fst (vertexMap (build_buckets exact_runtime unit_square)) =
     [''0.0000_0.0000_0.0000'', ''1.0000_0.0000_0.0000'', ''1.0000_1.0000_0.0000'',
      ''0.0000_1.0000_0.0000''] \<and>
   map (\<lambda>c. hash exact_runtime (ci_vertex c)) (corner_instances unit_square) =
     [''0.0000_0.0000_0.0000'', ''1.0000_0.0000_0.0000'', ''1.0000_1.0000_0.0000'',
      ''0.0000_0.0000_0.0000'', ''1.0000_1.0000_0.0000'', ''0.0000_1.0000_0.0000''] \<and>
   (''1.0000_1.0000_0.0000'', collect [corner (vec 1 1 0) white (0, 2), corner (vec 1 1 0) white (1, 1)])
     \<in> set (vertexMap (build_buckets exact_runtime unit_square)) \<and>
   b_faces (collect [corner (vec 1 1 0) white (0, 2), corner (vec 1 1 0) white (1, 1)]) =
     [(0, 2), (1, 1)] \<and>
   position (export_buffers exact_runtime unit_square default_smoothingAngle) =
     [0, 0, 0,  0, 0, 0,  1, 0, 0,  1, 1, 0,  1, 1, 0,  0, 1, 0] \<and>
   index (export_buffers exact_runtime unit_square default_smoothingAngle) =
     [0, 2, 3, 1, 4, 5]"
proof -
  note R = export_bucket_order [of exact_runtime unit_square default_smoothingAngle]
  note T = R [THEN conjunct2]
  have r: "exportThreeGeometry exact_runtime (Constructor True) unit_square default_smoothingAngle =
     Inr (Buffers (export_buffers exact_runtime unit_square default_smoothingAngle))"
    by (rule R [THEN conjunct1])
  have sc: "(\<exists>p \<in> set quad_face. shared_color p \<noteq> None) \<longleftrightarrow>
            (\<exists>p \<in> set unit_square. shared_color p \<noteq> None)"
    by (simp add: quad_face_def unit_square_def square_def)
  have q: "exportThreeGeometry exact_runtime (Constructor True) quad_face default_smoothingAngle =
     exportThreeGeometry exact_runtime (Constructor True) unit_square default_smoothingAngle"
    using T [THEN conjunct2, THEN conjunct2, THEN conjunct2, THEN conjunct2, THEN conjunct2,
      rule_format, of quad_face] quad_face_corners sc by blast
  have w: "(\<lambda>c. hash exact_runtime (ci_vertex c)) = weld_key exact_runtime"
    by (rule ext) (simp add: weld_key_def)
  have k: "map (\<lambda>c. hash exact_runtime (ci_vertex c)) (corner_instances unit_square) =
     [''0.0000_0.0000_0.0000'', ''1.0000_0.0000_0.0000'', ''1.0000_1.0000_0.0000'',
      ''0.0000_0.0000_0.0000'', ''1.0000_1.0000_0.0000'', ''0.0000_1.0000_0.0000'']"
    unfolding w unit_square_def by (rule square_keys)
  have "map fst (vertexMap (build_buckets exact_runtime unit_square)) =
     first_occurrences [''0.0000_0.0000_0.0000'', ''1.0000_0.0000_0.0000'', ''1.0000_1.0000_0.0000'',
      ''0.0000_0.0000_0.0000'', ''1.0000_1.0000_0.0000'', ''0.0000_1.0000_0.0000'']"
    using T [THEN conjunct1] by (simp only: k)
  then have f: "map fst (vertexMap (build_buckets exact_runtime unit_square)) =
     [''0.0000_0.0000_0.0000'', ''1.0000_0.0000_0.0000'', ''1.0000_1.0000_0.0000'',
      ''0.0000_1.0000_0.0000'']"
    by (simp add: first_occurrences_def)
  have hb: "(''1.0000_1.0000_0.0000'',
             collect [corner (vec 1 1 0) white (0, 2), corner (vec 1 1 0) white (1, 1)])
     \<in> set (vertexMap (build_buckets exact_runtime unit_square))"
    by (simp add: unit_square_vertexMap shade_None)
  have b: "b_faces (collect [corner (vec 1 1 0) white (0, 2), corner (vec 1 1 0) white (1, 1)]) =
     [(0, 2), (1, 1)]"
    by (simp add: collect_fields corner_def)
  show ?thesis
    using r quad_face_corners q f k hb b unit_square_position unit_square_index by blast
qed

end
